theory Spec2Isabelle
  imports Main "HOL-Library.Sublist"
begin

section \<open>Strings\<close>

text \<open>
  A JavaScript string is a sequence of 16-bit code units, here the numbers below 65536;
  \<open>length\<close> counts code units, as \<open>String.prototype.length\<close> does. No operation of
  the program computes a code unit beyond that range: the only arithmetic adds 32 to a
  capital letter. \<open>u\<close> writes a Basic Latin literal as code units.
\<close>

type_synonym unit16 = nat
type_synonym jsstring = "unit16 list"

definition u :: "string \<Rightarrow> jsstring" where
  "u s = map (\<lambda>c. of_char c) s"

text \<open>
  The white space of \<open>String.prototype.trim\<close> and of the regular expression class
  \<open>\s\<close>: the WhiteSpace and LineTerminator code units of ECMAScript.
\<close>

definition isWhiteSpace :: "unit16 \<Rightarrow> bool" where
  "isWhiteSpace c =
     (c = 0x09 \<or> c = 0x0A \<or> c = 0x0B \<or> c = 0x0C \<or> c = 0x0D \<or> c = 0x20 \<or> c = 0xA0 \<or>
      c = 0x1680 \<or> (0x2000 \<le> c \<and> c \<le> 0x200A) \<or> c = 0x2028 \<or> c = 0x2029 \<or>
      c = 0x202F \<or> c = 0x205F \<or> c = 0x3000 \<or> c = 0xFEFF)"

definition trim :: "jsstring \<Rightarrow> jsstring" where
  "trim s = rev (dropWhile isWhiteSpace (rev (dropWhile isWhiteSpace s)))"

text \<open>
  \<open>String.prototype.toLowerCase\<close>, on the letters of Basic Latin: \<open>A\<close> to \<open>Z\<close> become
  \<open>a\<close> to \<open>z\<close> and every other code unit is kept. This is JavaScript's result on text
  of Basic Latin and Hangul, which has no case; the case mappings of other scripts are
  not modelled.
\<close>

definition toLowerUnit :: "unit16 \<Rightarrow> unit16" where
  "toLowerUnit c = (if 0x41 \<le> c \<and> c \<le> 0x5A then c + 0x20 else c)"

definition toLowerCase :: "jsstring \<Rightarrow> jsstring" where
  "toLowerCase s = map toLowerUnit s"

text \<open>\<open>s.includes(t)\<close>: a left-to-right search for \<open>t\<close> as a contiguous part of \<open>s\<close>.\<close>

fun js_includes :: "'a list \<Rightarrow> 'a list \<Rightarrow> bool" where
  "js_includes [] t = (t = [])"
| "js_includes (x # xs) t = (prefix t (x # xs) \<or> js_includes xs t)"

text \<open>\<open>array.push(x)\<close> guarded by \<open>!array.includes(x)\<close>, and insertion into a \<open>Set\<close>.\<close>

definition pushIfAbsent :: "'a list \<Rightarrow> 'a \<Rightarrow> 'a list" where
  "pushIfAbsent xs x = (if x \<in> set xs then xs else xs @ [x])"

section \<open>Extracted record, settings and the matcher\<close>

record streamerInfo =
  name :: jsstring
  title :: jsstring
  tags :: "jsstring list"

record settings =
  masterEnabled :: bool
  streamerEnabled :: bool
  tagEnabled :: bool
  blockedStreamers :: "jsstring list"
  blockedTags :: "jsstring list"

definition matchesStreamer :: "streamerInfo \<Rightarrow> jsstring \<Rightarrow> bool" where
  "matchesStreamer streamerInfo blockedName =
     (let cleanBlockedName = trim (toLowerCase blockedName);
          cleanStreamerName = trim (toLowerCase (name streamerInfo))
      in js_includes cleanStreamerName cleanBlockedName \<or>
         js_includes cleanBlockedName cleanStreamerName \<or>
         js_includes (toLowerCase (title streamerInfo)) cleanBlockedName)"

definition matchesTag :: "streamerInfo \<Rightarrow> jsstring \<Rightarrow> bool" where
  "matchesTag streamerInfo blockedTag =
     (let cleanBlockedTag = trim (toLowerCase blockedTag)
      in list_ex (\<lambda>tag. js_includes (toLowerCase tag) cleanBlockedTag \<or>
                        js_includes cleanBlockedTag (toLowerCase tag)) (tags streamerInfo) \<or>
         js_includes (toLowerCase (title streamerInfo)) cleanBlockedTag)"

section \<open>Regular expressions of the extractor\<close>

text \<open>
  The extractor's regular expressions are alternations of literal words under the flags
  \<open>gi\<close>, a run of white space, a run of separators, and a bounded run of one character
  class. Each is modelled by the scan the regular expression engine performs: leftmost
  match first, alternatives in the order written, runs greedy. Ignoring case compares the
  Basic Latin letters without case and every other code unit exactly, which is what the
  flag \<open>i\<close> does for patterns made of Basic Latin letters, spaces and Hangul syllables.
\<close>

definition ciPrefix :: "jsstring \<Rightarrow> jsstring \<Rightarrow> bool" where
  "ciPrefix pat s = prefix (toLowerCase pat) (toLowerCase s)"

fun firstAlternative :: "jsstring list \<Rightarrow> jsstring \<Rightarrow> nat option" where
  "firstAlternative [] s = None"
| "firstAlternative (a # as) s =
     (if ciPrefix a s then Some (length a) else firstAlternative as s)"

text \<open>\<open>s.replace(/a1|a2|.../gi, '')\<close>\<close>

fun removeAlternatives :: "jsstring list \<Rightarrow> jsstring \<Rightarrow> jsstring" where
  "removeAlternatives alts [] = []"
| "removeAlternatives alts (c # cs) =
     (case firstAlternative alts (c # cs) of
        None \<Rightarrow> c # removeAlternatives alts cs
      | Some n \<Rightarrow>
          if n = 0 then c # removeAlternatives alts cs
          else removeAlternatives alts (drop (n - 1) cs))"

text \<open>\<open>s.replace(/\s+/g, ' ')\<close>; the flag says whether the scan is inside a run.\<close>

fun collapseSpaces :: "bool \<Rightarrow> jsstring \<Rightarrow> jsstring" where
  "collapseSpaces inRun [] = []"
| "collapseSpaces inRun (c # cs) =
     (if isWhiteSpace c
      then (if inRun then collapseSpaces True cs else 0x20 # collapseSpaces True cs)
      else c # collapseSpaces False cs)"

text \<open>
  \<open>s.split(/[...]+/)\<close> for a character class: the pieces between the runs of separators,
  an empty piece before a leading run and after a trailing one.
\<close>

fun splitRuns :: "(unit16 \<Rightarrow> bool) \<Rightarrow> bool \<Rightarrow> jsstring \<Rightarrow> jsstring \<Rightarrow> jsstring list" where
  "splitRuns p inRun cur [] = [rev cur]"
| "splitRuns p inRun cur (c # cs) =
     (if p c
      then (if inRun then splitRuns p True cur cs else rev cur # splitRuns p True [] cs)
      else splitRuns p False (c # cur) cs)"

text \<open>The class \<open>[\s,\[\]()]\<close> of the title tokenizer.\<close>

definition isSeparator :: "unit16 \<Rightarrow> bool" where
  "isSeparator c = (isWhiteSpace c \<or> c = 0x2C \<or> c = 0x5B \<or> c = 0x5D \<or> c = 0x28 \<or> c = 0x29)"

text \<open>\<open>s.match(/[class]{lo,hi}/)\<close>: the first run of at least \<open>lo\<close> members, cut at \<open>hi\<close>.\<close>

fun firstRun :: "(unit16 \<Rightarrow> bool) \<Rightarrow> nat \<Rightarrow> nat \<Rightarrow> jsstring \<Rightarrow> jsstring option" where
  "firstRun p lo hi [] = (if lo = 0 then Some [] else None)"
| "firstRun p lo hi (c # cs) =
     (let run = takeWhile p (c # cs)
      in if lo \<le> length run then Some (take hi run) else firstRun p lo hi cs)"

definition isHangul :: "unit16 \<Rightarrow> bool" where
  "isHangul c = (0xAC00 \<le> c \<and> c \<le> 0xD7A3)"

definition isLatinLetter :: "unit16 \<Rightarrow> bool" where
  "isLatinLetter c = ((0x41 \<le> c \<and> c \<le> 0x5A) \<or> (0x61 \<le> c \<and> c \<le> 0x7A))"

text \<open>The words of the regular expressions and exclusion lists, Hangul by code unit.\<close>

definition nameBoilerplate :: "jsstring list" where
  "nameBoilerplate =
     [[0xCC44, 0xB110, 0xB85C, 0x20, 0xC774, 0xB3D9], u ''channel'', u ''live'', u ''LIVE'',
      [0xB77C, 0xC774, 0xBE0C]]"

definition nameBoilerplate_ctx :: "jsstring list" where
  "nameBoilerplate_ctx =
     [[0xCC44, 0xB110, 0xB85C, 0x20, 0xC774, 0xB3D9], u ''channel'', u ''live'', u ''LIVE'',
      [0xB77C, 0xC774, 0xBE0C], [0xC778, 0xC99D, 0x20, 0xB9C8, 0xD06C],
      [0xC2A4, 0xD2B8, 0xB9AC, 0xBA38], [0xCC44, 0xB110], [0xBC29, 0xC1A1]]"

definition titleBoilerplate :: "jsstring list" where
  "titleBoilerplate =
     [[0xB77C, 0xC774, 0xBE0C, 0x20, 0xC5D4, 0xB4DC, 0xB85C, 0x20, 0xC774, 0xB3D9], u ''live'',
      u ''stream'', u ''LIVE'', [0xB77C, 0xC774, 0xBE0C]]"

definition stopWords :: "jsstring list" where
  "stopWords =
     [u ''the'', u ''and'', u ''or'', u ''in'', u ''on'', u ''at'', u ''to'', u ''for'', u ''of'',
      u ''with'', u ''by'', [0xADF8], [0xC774], [0xC744], [0xB97C], [0xC758], [0xC5D0], [0xB294],
      [0xAC00], [0xD55C], [0xC218]]"

definition excludedHangul :: "jsstring list" where
  "excludedHangul =
     [[0xB77C, 0xC774, 0xBE0C], [0xCC44, 0xB110], [0xC774, 0xB3D9], [0xBC29, 0xC1A1],
      [0xC2A4, 0xD2B8, 0xB9BC]]"

definition excludedLatin :: "jsstring list" where
  "excludedLatin = [u ''LIVE'', u ''live'', u ''channel'', u ''stream'']"

text \<open>\<open>/^(the|and|...)$/i.test(word)\<close>\<close>

definition isStopWord :: "jsstring \<Rightarrow> bool" where
  "isStopWord word = (toLowerCase word \<in> set (map toLowerCase stopWords))"

definition titleWords :: "jsstring \<Rightarrow> jsstring list" where
  "titleWords ttl =
     filter (\<lambda>word. 1 < length word \<and> length word < 10 \<and> \<not> isStopWord word)
       (splitRuns isSeparator False [] ttl)"

section \<open>The document\<close>

text \<open>
  The document is a store of its elements in document order; an element is identified by
  its index. What the browser computes for an element is data of the store: the class
  tokens, the inline style declaration (property to value), the text content and the
  indices of the descendant elements in document order. The program writes the class
  tokens and the inline style only.
\<close>

record element =
  tagName :: jsstring
  classList :: "jsstring list"
  style :: "string \<rightharpoonup> string"
  textContent :: jsstring
  descendants :: "nat list"

type_synonym document = "element list"

text \<open>
  The selectors the program uses: \<open>.c\<close>, \<open>t.c\<close>, \<open>[class*="p"]\<close> and \<open>t[class*="p"]\<close>.
  No pattern \<open>p\<close> holds white space, so the class attribute contains \<open>p\<close> exactly when one
  of its tokens does.
\<close>

datatype selector =
    ByClass jsstring
  | ByTagClass jsstring jsstring
  | ByClassPart jsstring
  | ByTagClassPart jsstring jsstring

fun matchesSelector :: "selector \<Rightarrow> element \<Rightarrow> bool" where
  "matchesSelector (ByClass c) e = (c \<in> set (classList e))"
| "matchesSelector (ByTagClass t c) e = (tagName e = t \<and> c \<in> set (classList e))"
| "matchesSelector (ByClassPart p) e = list_ex (\<lambda>c. js_includes c p) (classList e)"
| "matchesSelector (ByTagClassPart t p) e =
     (tagName e = t \<and> list_ex (\<lambda>c. js_includes c p) (classList e))"

text \<open>\<open>document.querySelectorAll(selector)\<close>\<close>

definition querySelectorAll :: "document \<Rightarrow> selector \<Rightarrow> nat list" where
  "querySelectorAll doc sel = filter (\<lambda>i. matchesSelector sel (doc ! i)) [0..<length doc]"

text \<open>\<open>card.querySelectorAll('*')\<close>\<close>

definition descendantElements :: "document \<Rightarrow> element \<Rightarrow> element list" where
  "descendantElements doc cardEl =
     map (\<lambda>i. doc ! i) (filter (\<lambda>i. i < length doc) (descendants cardEl))"

definition hasClassContaining :: "jsstring list \<Rightarrow> jsstring \<Rightarrow> bool" where
  "hasClassContaining classes substring =
     list_ex (\<lambda>className. js_includes (toLowerCase className) (toLowerCase substring)) classes"

section \<open>The field extractor\<close>

definition emptyInfo :: streamerInfo where
  "emptyInfo = \<lparr>name = [], title = [], tags = []\<rparr>"

text \<open>The three checks of the loop over the descendants, on the trimmed text of one.\<close>

definition nameStep :: "jsstring list \<Rightarrow> jsstring list \<Rightarrow> jsstring \<Rightarrow> streamerInfo \<Rightarrow> streamerInfo" where
  "nameStep boilerplate classes text info =
     (if hasClassContaining classes (u ''channel'') \<or> hasClassContaining classes (u ''name'') \<or>
         hasClassContaining classes (u ''ellipsis'')
      then (let cleanName = trim (collapseSpaces False (removeAlternatives boilerplate text))
            in if cleanName \<noteq> [] \<and> 0 < length cleanName \<and> length cleanName < 50 \<and> name info = []
               then info\<lparr>name := cleanName\<rparr> else info)
      else info)"

definition titleStep :: "jsstring list \<Rightarrow> jsstring \<Rightarrow> streamerInfo \<Rightarrow> streamerInfo" where
  "titleStep classes text info =
     (if hasClassContaining classes (u ''title'')
      then (let cleanTitle = trim (collapseSpaces False (removeAlternatives titleBoilerplate text))
            in if cleanTitle \<noteq> [] \<and> 0 < length cleanTitle \<and> title info = []
               then info\<lparr>title := cleanTitle\<rparr> else info)
      else info)"

definition tagStep :: "jsstring list \<Rightarrow> jsstring \<Rightarrow> streamerInfo \<Rightarrow> streamerInfo" where
  "tagStep classes text info =
     (if hasClassContaining classes (u ''tag'') \<or> hasClassContaining classes (u ''category'') \<or>
         hasClassContaining classes (u ''genre'')
      then (if 0 < length text \<and> length text < 20 \<and> text \<notin> set (tags info)
            then info\<lparr>tags := tags info @ [text]\<rparr> else info)
      else info)"

text \<open>The body of the loop of \<open>content.js\<close>; an element with no text is skipped.\<close>

definition scanElement :: "element \<Rightarrow> streamerInfo \<Rightarrow> streamerInfo" where
  "scanElement el info =
     (let text = trim (textContent el)
      in if text = [] then info
         else tagStep (classList el) text
                (titleStep (classList el) text (nameStep nameBoilerplate (classList el) text info)))"

text \<open>Tags from the words of the title.\<close>

definition addTitleTags :: "streamerInfo \<Rightarrow> streamerInfo" where
  "addTitleTags info =
     (if title info \<noteq> []
      then info\<lparr>tags := foldl pushIfAbsent (tags info) (titleWords (title info))\<rparr>
      else info)"

text \<open>
  The fallback: a name from the text of the whole card. The Hangul match is tried first;
  when it exists and is an excluded word, the Latin match is not consulted.
\<close>

definition fallbackCandidate :: "jsstring \<Rightarrow> jsstring option" where
  "fallbackCandidate allText =
     (let koreanMatch = firstRun isHangul 2 8 allText;
          englishMatch = firstRun isLatinLetter 3 15 allText
      in case koreanMatch of
           Some candidate \<Rightarrow> if candidate \<notin> set excludedHangul then Some candidate else None
         | None \<Rightarrow>
             (case englishMatch of
                Some candidate \<Rightarrow> if candidate \<notin> set excludedLatin then Some candidate else None
              | None \<Rightarrow> None))"

definition fallbackName :: "element \<Rightarrow> streamerInfo \<Rightarrow> streamerInfo" where
  "fallbackName cardEl info =
     (if name info = []
      then (case fallbackCandidate (textContent cardEl) of
              Some candidate \<Rightarrow> info\<lparr>name := candidate\<rparr>
            | None \<Rightarrow> info)
      else info)"

text \<open>\<open>extractStreamerInfo\<close> of \<open>content.js\<close>\<close>

definition extractStreamerInfo :: "document \<Rightarrow> element \<Rightarrow> streamerInfo" where
  "extractStreamerInfo doc cardEl =
     fallbackName cardEl (addTitleTags (fold scanElement (descendantElements doc cardEl) emptyInfo))"

text \<open>
  \<open>extractStreamerInfo\<close> of the two context menu variants: the name from the first
  \<open>[class*="name_text"]\<close> descendant, else from a loop with a longer boilerplate list;
  title and tags from a second loop.
\<close>

definition scanName_ctx :: "element \<Rightarrow> streamerInfo \<Rightarrow> streamerInfo" where
  "scanName_ctx el info =
     (let text = trim (textContent el)
      in if text = [] then info else nameStep nameBoilerplate_ctx (classList el) text info)"

definition scanTitleTags_ctx :: "element \<Rightarrow> streamerInfo \<Rightarrow> streamerInfo" where
  "scanTitleTags_ctx el info =
     (let text = trim (textContent el)
      in if text = [] then info
         else tagStep (classList el) text (titleStep (classList el) text info))"

definition extractStreamerInfo_ctx :: "document \<Rightarrow> element \<Rightarrow> streamerInfo" where
  "extractStreamerInfo_ctx doc cardEl =
     (let allElements = descendantElements doc cardEl;
          info1 = (case find (matchesSelector (ByClassPart (u ''name_text''))) allElements of
                     None \<Rightarrow> emptyInfo
                   | Some nameTextElement \<Rightarrow>
                       (let nameText = trim (textContent nameTextElement)
                        in if nameText \<noteq> [] \<and> 0 < length nameText \<and> length nameText < 50
                           then emptyInfo\<lparr>name := nameText\<rparr> else emptyInfo));
          info2 = (if name info1 = [] then fold scanName_ctx allElements info1 else info1);
          info3 = fold scanTitleTags_ctx allElements info2
      in fallbackName cardEl (addTitleTags info3))"

section \<open>The visibility controller\<close>

definition processedClass :: jsstring where
  "processedClass = u ''chzzk-blocker-processed''"

definition hiddenClass :: jsstring where
  "hiddenClass = u ''chzzk-blocker-hidden''"

text \<open>
  \<open>style.removeProperty(k)\<close> for each of a list of properties, and \<open>style.k = v\<close> for
  each of a list of declarations, in the order written.
\<close>

definition removeProperties :: "string list \<Rightarrow> (string \<rightharpoonup> string) \<Rightarrow> (string \<rightharpoonup> string)" where
  "removeProperties ks m = fold (\<lambda>k m. m(k := None)) ks m"

definition setProperties :: "(string \<times> string) list \<Rightarrow> (string \<rightharpoonup> string) \<Rightarrow> (string \<rightharpoonup> string)" where
  "setProperties ps m = fold (\<lambda>(k, v) m. m(k \<mapsto> v)) ps m"

definition suppressionProperties :: "string list" where
  "suppressionProperties =
     [''display'', ''visibility'', ''opacity'', ''height'', ''width'', ''position'', ''left'',
      ''top'']"

definition hiddenStyle :: "(string \<times> string) list" where
  "hiddenStyle =
     [(''display'', ''none''), (''visibility'', ''hidden''), (''opacity'', ''0''),
      (''height'', ''0px''), (''width'', ''0px''), (''position'', ''absolute''),
      (''left'', ''-9999px''), (''top'', ''-9999px'')]"

definition setCardVisibility :: "element \<Rightarrow> bool \<Rightarrow> element" where
  "setCardVisibility cardEl visible =
     (let card1 = cardEl\<lparr>classList := pushIfAbsent (classList cardEl) processedClass\<rparr>
      in if visible
         then card1\<lparr>style := removeProperties suppressionProperties (style card1),
                    classList := removeAll hiddenClass (classList card1)\<rparr>
         else card1\<lparr>style := setProperties hiddenStyle (style card1),
                    classList := pushIfAbsent (classList card1) hiddenClass\<rparr>)"

definition showCard :: "element \<Rightarrow> element" where
  "showCard cardEl =
     cardEl\<lparr>style := removeProperties [''display''] (style cardEl),
          classList := removeAll hiddenClass (classList cardEl)\<rparr>"

definition showAllStreamCards :: "document \<Rightarrow> document" where
  "showAllStreamCards doc =
     fold (\<lambda>cardId d. d[cardId := showCard (d ! cardId)]) (querySelectorAll doc (ByClass hiddenClass)) doc"

section \<open>The reconciliation pass\<close>

text \<open>
  The errors an operation of the program can raise: \<open>querySelectorAll\<close> raises a
  \<open>SyntaxError\<close> on a selector text it cannot parse, and reading a property of
  \<open>null\<close> raises a \<open>TypeError\<close>.
\<close>

datatype error = SyntaxError jsstring | TypeError

text \<open>
  \<open>document.querySelectorAll\<close> takes the text of a selector. Of the selector language
  the parser knows the four forms the program writes, with an identifier for the tag and
  the class and a quoted, non-empty value without escapes for the pattern; every other
  text is refused. A tag name is compared without case.
\<close>

definition isDigitUnit :: "unit16 \<Rightarrow> bool" where
  "isDigitUnit c = (0x30 \<le> c \<and> c \<le> 0x39)"

definition isIdentUnit :: "unit16 \<Rightarrow> bool" where
  "isIdentUnit c =
     ((0x41 \<le> c \<and> c \<le> 0x5A) \<or> (0x61 \<le> c \<and> c \<le> 0x7A) \<or> isDigitUnit c \<or>
      c = 0x2D \<or> c = 0x5F \<or> 0x80 \<le> c)"

fun isIdent :: "jsstring \<Rightarrow> bool" where
  "isIdent [] = False"
| "isIdent (c # cs) =
     (list_all isIdentUnit (c # cs) \<and> \<not> isDigitUnit c \<and>
      \<not> (c = 0x2D \<and> (case cs of [] \<Rightarrow> True | d # _ \<Rightarrow> isDigitUnit d)))"

definition parseSelector :: "jsstring \<Rightarrow> selector option" where
  "parseSelector text =
     (let tag = takeWhile isIdentUnit text;
          rest = dropWhile isIdentUnit text
      in if tag \<noteq> [] \<and> \<not> isIdent tag then None
         else (case rest of
                 [] \<Rightarrow> None
               | c # body \<Rightarrow>
                   if c = 0x2E
                   then (if isIdent body
                         then Some (if tag = [] then ByClass body
                                    else ByTagClass (toLowerCase tag) body)
                         else None)
                   else if c = 0x5B \<and> prefix (u ''class*='' @ [0x22]) body
                   then (let v = drop 8 body;
                             p = takeWhile (\<lambda>c. c \<noteq> 0x22) v;
                             r = dropWhile (\<lambda>c. c \<noteq> 0x22) v
                         in if r = [0x22, 0x5D] \<and> p \<noteq> [] \<and>
                               list_all (\<lambda>c. c \<noteq> 0x5C \<and> c \<noteq> 0x0A) p
                            then Some (if tag = [] then ByClassPart p
                                       else ByTagClassPart (toLowerCase tag) p)
                            else None)
                   else None))"

definition querySelectorAllText :: "document \<Rightarrow> jsstring \<Rightarrow> error + nat list" where
  "querySelectorAllText doc text =
     (case parseSelector text of
        None \<Rightarrow> Inl (SyntaxError text)
      | Some sel \<Rightarrow> Inr (querySelectorAll doc sel))"

text \<open>The catalog of \<open>findStreamCards\<close>, as the source writes it.\<close>

definition cardSelectorTexts :: "jsstring list" where
  "cardSelectorTexts =
     [u ''.navigation_component_item__iMPOI'',
      u ''li.navigation_component_item__iMPOI'',
      u ''.video_card_container__urjO6'',
      u ''[class*=\"video_card_container\"]'',
      u ''[class*=\"navigation_component_item\"]'',
      u ''[class*=\"live_card\"]'',
      u ''[class*=\"stream_card\"]'',
      u ''li[class*=\"item\"]'',
      u ''div[class*=\"card\"]'',
      u ''article[class*=\"card\"]'']"

text \<open>The same catalog, parsed.\<close>

definition cardSelectors :: "selector list" where
  "cardSelectors =
     [ByClass (u ''navigation_component_item__iMPOI''),
      ByTagClass (u ''li'') (u ''navigation_component_item__iMPOI''),
      ByClass (u ''video_card_container__urjO6''),
      ByClassPart (u ''video_card_container''),
      ByClassPart (u ''navigation_component_item''),
      ByClassPart (u ''live_card''),
      ByClassPart (u ''stream_card''),
      ByTagClassPart (u ''li'') (u ''item''),
      ByTagClassPart (u ''div'') (u ''card''),
      ByTagClassPart (u ''article'') (u ''card'')]"

text \<open>
  The loop of \<open>findStreamCards\<close> over the catalog: a query that raises ends the loop,
  since the source has no handler around it; the matches of a query that finds any are
  appended. The cards are the matches without duplicates, first occurrence first.
\<close>

fun collectCards :: "document \<Rightarrow> jsstring list \<Rightarrow> nat list \<Rightarrow> error + nat list" where
  "collectCards doc [] cards = Inr cards"
| "collectCards doc (selector # selectors) cards =
     (case querySelectorAllText doc selector of
        Inl e \<Rightarrow> Inl e
      | Inr foundCards \<Rightarrow>
          collectCards doc selectors
            (if 0 < length foundCards then cards @ foundCards else cards))"

definition findStreamCards :: "document \<Rightarrow> error + nat list" where
  "findStreamCards doc =
     (case collectCards doc cardSelectorTexts [] of
        Inl e \<Rightarrow> Inl e
      | Inr cards \<Rightarrow> Inr (foldl pushIfAbsent [] cards))"

text \<open>
  \<open>shouldHideCard\<close> and \<open>applyBlocking\<close> are the same text in every variant and call the
  variant's own extractor, which is their first argument here.
\<close>

definition shouldHideCardWith ::
  "(document \<Rightarrow> element \<Rightarrow> streamerInfo) \<Rightarrow> settings \<Rightarrow> document \<Rightarrow> element \<Rightarrow> bool" where
  "shouldHideCardWith extract st doc cardEl =
     (let streamerInfo = extract doc cardEl
      in if streamerEnabled st \<and> blockedStreamers st \<noteq> [] \<and>
            list_ex (matchesStreamer streamerInfo) (blockedStreamers st) then True
         else if tagEnabled st \<and> blockedTags st \<noteq> [] \<and>
            list_ex (matchesTag streamerInfo) (blockedTags st) then True
         else False)"

text \<open>The body of the loop over the cards: decide, then set the visibility.\<close>

definition processCardWith ::
  "(document \<Rightarrow> element \<Rightarrow> streamerInfo) \<Rightarrow> settings \<Rightarrow> nat \<Rightarrow> document \<Rightarrow> document" where
  "processCardWith extract st cardId d =
     (let shouldHide = shouldHideCardWith extract st d (d ! cardId)
      in d[cardId := setCardVisibility (d ! cardId) (\<not> shouldHide)])"

definition applyBlockingWith ::
  "(document \<Rightarrow> element \<Rightarrow> streamerInfo) \<Rightarrow> settings \<Rightarrow> document \<Rightarrow> error + document" where
  "applyBlockingWith extract st doc =
     (let totalBlocked = length (blockedStreamers st) + length (blockedTags st)
      in if \<not> masterEnabled st \<or> totalBlocked = 0 then Inr (showAllStreamCards doc)
         else (case findStreamCards doc of
                 Inl e \<Rightarrow> Inl e
               | Inr cards \<Rightarrow> Inr (fold (processCardWith extract st) cards doc)))"

text \<open>\<open>content.js\<close>\<close>

definition shouldHideCard :: "settings \<Rightarrow> document \<Rightarrow> element \<Rightarrow> bool" where
  "shouldHideCard = shouldHideCardWith extractStreamerInfo"

definition applyBlocking :: "settings \<Rightarrow> document \<Rightarrow> error + document" where
  "applyBlocking = applyBlockingWith extractStreamerInfo"

text \<open>
  A card carries the mark of this program when its class list holds the hidden marker.
  A card is out of sight in the page when its inline style declares \<open>display: none\<close>,
  \<open>visibility: hidden\<close> or \<open>opacity: 0\<close>; each of the three alone takes it out of sight.
\<close>

definition hiddenByBlocker :: "element \<Rightarrow> bool" where
  "hiddenByBlocker cardEl = (hiddenClass \<in> set (classList cardEl))"

definition hiddenInPage :: "element \<Rightarrow> bool" where
  "hiddenInPage cardEl =
     (style cardEl ''display'' = Some ''none'' \<or> style cardEl ''visibility'' = Some ''hidden'' \<or>
      style cardEl ''opacity'' = Some ''0'')"

section \<open>The extractor and the steps that can raise\<close>

text \<open>
  \<open>String.prototype.match\<close> returns \<open>null\<close> when nothing matches, and \<open>m[0]\<close> on
  \<open>null\<close> raises a \<open>TypeError\<close>. The fallback of the extractor is written here with
  that step as it stands in the source: the test \<open>if (koreanMatch)\<close>, then
  \<open>koreanMatch[0]\<close>. The loops over the descendants and over the words of the title
  read strings and arrays the function holds and have no step that raises; the text
  content of an element is a string.
\<close>

definition matchedText :: "jsstring option \<Rightarrow> error + jsstring" where
  "matchedText m = (case m of None \<Rightarrow> Inl TypeError | Some s \<Rightarrow> Inr s)"

definition fallbackName_raising :: "element \<Rightarrow> streamerInfo \<Rightarrow> error + streamerInfo" where
  "fallbackName_raising cardEl info =
     (if name info = []
      then (let allText = textContent cardEl;
                koreanMatch = firstRun isHangul 2 8 allText;
                englishMatch = firstRun isLatinLetter 3 15 allText
            in if koreanMatch \<noteq> None
               then (case matchedText koreanMatch of
                       Inl e \<Rightarrow> Inl e
                     | Inr candidate \<Rightarrow>
                         Inr (if candidate \<notin> set excludedHangul
                              then info\<lparr>name := candidate\<rparr> else info))
               else if englishMatch \<noteq> None
               then (case matchedText englishMatch of
                       Inl e \<Rightarrow> Inl e
                     | Inr candidate \<Rightarrow>
                         Inr (if candidate \<notin> set excludedLatin
                              then info\<lparr>name := candidate\<rparr> else info))
               else Inr info)
      else Inr info)"

definition extractStreamerInfo_raising :: "document \<Rightarrow> element \<Rightarrow> error + streamerInfo" where
  "extractStreamerInfo_raising doc cardEl =
     fallbackName_raising cardEl
       (addTitleTags (fold scanElement (descendantElements doc cardEl) emptyInfo))"

section \<open>The right-click handlers\<close>

text \<open>
  The page of a content script: the settings it holds, the document and the extension's
  synchronized storage. \<open>storage.set\<close> writes the keys it is given, or fails, which the
  first argument of a handler decides.
\<close>

datatype storageValue = Flag bool | Names "jsstring list"

record page =
  config :: settings
  document :: document
  storage :: "string \<rightharpoonup> storageValue"

text \<open>The variant with the browser's own context menu.\<close>

record nativeMenuPage = page +
  lastRightClickedCard :: "nat option"

text \<open>
  \<open>handleContextMenuAction\<close> is an async function. It runs without interruption up to
  \<open>await chrome.storage.sync.set\<close>, having toggled the list in memory and handed the
  list to the storage; there it is suspended, and other handlers may run. When the write
  has ended it is resumed: after a successful write it runs the pass, after a failed one
  it logs the error, and in both cases it clears the captured card. The two returns at
  the top of the function end it without a suspension.
\<close>

definition handleContextMenuAction_begin ::
  "nativeMenuPage \<Rightarrow> nativeMenuPage \<times> jsstring list option" where
  "handleContextMenuAction_begin p =
     (case lastRightClickedCard p of
        None \<Rightarrow> (p, None)
      | Some cardId \<Rightarrow>
          (let streamerInfo = extractStreamerInfo_ctx (document p) (document p ! cardId)
           in if name streamerInfo = [] then (p, None)
              else
                (let isBlocked = (name streamerInfo \<in> set (blockedStreamers (config p)));
                     list1 = (if isBlocked
                              then remove1 (name streamerInfo) (blockedStreamers (config p))
                              else pushIfAbsent (blockedStreamers (config p)) (name streamerInfo))
                 in (p\<lparr>config := (config p)\<lparr>blockedStreamers := list1\<rparr>\<rparr>, Some list1))))"

definition handleContextMenuAction_resume ::
  "bool \<Rightarrow> jsstring list \<Rightarrow> nativeMenuPage \<Rightarrow> nativeMenuPage" where
  "handleContextMenuAction_resume writeOk written p =
     (let p2 = (if writeOk
                then (let p3 = p\<lparr>storage := (storage p)(''blockedStreamers'' \<mapsto> Names written)\<rparr>
                      in case applyBlockingWith extractStreamerInfo_ctx (config p3) (document p3) of
                           Inl e \<Rightarrow> p3
                         | Inr d \<Rightarrow> p3\<lparr>document := d\<rparr>)
                else p)
      in p2\<lparr>lastRightClickedCard := None\<rparr>)"

text \<open>One invocation that runs to its end with no other handler in between.\<close>

definition handleContextMenuAction :: "bool \<Rightarrow> nativeMenuPage \<Rightarrow> nativeMenuPage" where
  "handleContextMenuAction writeOk p =
     (case handleContextMenuAction_begin p of
        (p1, None) \<Rightarrow> p1
      | (p1, Some written) \<Rightarrow> handleContextMenuAction_resume writeOk written p1)"


text \<open>
  The variant with a menu of its own inside the page. The notice the handler shows is an
  element without a class that it appends to the end of the body; the page keeps the
  notices in a list of their own, and whether the menu is shown in a flag.
\<close>

record ownMenuPage = page +
  currentContextTarget :: "nat option"
  menuShown :: bool
  notifications :: "jsstring list"

definition hiddenNotice :: "jsstring \<Rightarrow> jsstring" where
  "hiddenNotice n =
     u ''\"'' @ n @ u ''\" '' @
     [0xC2A4, 0xD2B8, 0xB9AC, 0xBA38, 0xAC00, 0x20, 0xC228, 0xACA8, 0xC84C, 0xC2B5, 0xB2C8,
      0xB2E4, 0x2E]"

definition blockStreamerFromContext :: "bool \<Rightarrow> ownMenuPage \<Rightarrow> ownMenuPage" where
  "blockStreamerFromContext writeOk p =
     (case currentContextTarget p of
        None \<Rightarrow> p
      | Some cardId \<Rightarrow>
          (let streamerInfo = extractStreamerInfo_ctx (document p) (document p ! cardId)
           in if name streamerInfo = [] then p
              else if name streamerInfo \<notin> set (blockedStreamers (config p))
              then (let list1 = blockedStreamers (config p) @ [name streamerInfo];
                        p1 = p\<lparr>config := (config p)\<lparr>blockedStreamers := list1\<rparr>\<rparr>
                    in if writeOk
                       then (let p2 = p1\<lparr>storage := (storage p1)(''blockedStreamers'' \<mapsto> Names list1)\<rparr>
                             in case applyBlockingWith extractStreamerInfo_ctx (config p2) (document p2) of
                                  Inl e \<Rightarrow> p2
                                | Inr d \<Rightarrow>
                                    p2\<lparr>document := d,
                                       notifications :=
                                         notifications p2 @ [hiddenNotice (name streamerInfo)]\<rparr>)
                       else p1)
              else p))"



section \<open>What a pass leaves of an element\<close>

text \<open>
  The program writes two class tokens and the inline style of a card. Two elements are
  alike when they differ in nothing else; two documents are alike when their elements
  are, index by index.
\<close>

definition unmarked :: "jsstring list \<Rightarrow> jsstring list" where
  "unmarked classes = filter (\<lambda>c. c \<noteq> processedClass \<and> c \<noteq> hiddenClass) classes"

definition alike :: "element \<Rightarrow> element \<Rightarrow> bool" where
  "alike e e' =
     (tagName e = tagName e' \<and> textContent e = textContent e' \<and>
      descendants e = descendants e' \<and> unmarked (classList e) = unmarked (classList e'))"

definition sameContent :: "document \<Rightarrow> document \<Rightarrow> bool" where
  "sameContent d d' = list_all2 alike d d'"

text \<open>A selector that cannot see the two marker tokens.\<close>

fun markerBlind :: "selector \<Rightarrow> bool" where
  "markerBlind (ByClass c) = (c \<noteq> processedClass \<and> c \<noteq> hiddenClass)"
| "markerBlind (ByTagClass t c) = (c \<noteq> processedClass \<and> c \<noteq> hiddenClass)"
| "markerBlind (ByClassPart p) =
     (\<not> js_includes processedClass p \<and> \<not> js_includes hiddenClass p)"
| "markerBlind (ByTagClassPart t p) =
     (\<not> js_includes processedClass p \<and> \<not> js_includes hiddenClass p)"

text \<open>The cards of a document: the union of the catalog's matches, first occurrence first.\<close>

definition streamCards :: "document \<Rightarrow> nat list" where
  "streamCards doc = foldl pushIfAbsent [] (concat (map (querySelectorAll doc) cardSelectors))"

section \<open>Resolving a field\<close>

text \<open>
  An element resolves the name, the title or a tag when the loop of \<open>content.js\<close> would
  accept its text for that field, were the field still open.
\<close>

definition resolvesName :: "element \<Rightarrow> bool" where
  "resolvesName el =
     (let text = trim (textContent el);
          cleanName = trim (collapseSpaces False (removeAlternatives nameBoilerplate text))
      in text \<noteq> [] \<and>
         (hasClassContaining (classList el) (u ''channel'') \<or>
          hasClassContaining (classList el) (u ''name'') \<or>
          hasClassContaining (classList el) (u ''ellipsis'')) \<and>
         cleanName \<noteq> [] \<and> length cleanName < 50)"

definition resolvesTitle :: "element \<Rightarrow> bool" where
  "resolvesTitle el =
     (let text = trim (textContent el);
          cleanTitle = trim (collapseSpaces False (removeAlternatives titleBoilerplate text))
      in text \<noteq> [] \<and> hasClassContaining (classList el) (u ''title'') \<and> cleanTitle \<noteq> [])"

definition hasTagClass :: "jsstring list \<Rightarrow> bool" where
  "hasTagClass classes =
     (hasClassContaining classes (u ''tag'') \<or> hasClassContaining classes (u ''category'') \<or>
      hasClassContaining classes (u ''genre''))"

definition resolvesTag :: "element \<Rightarrow> bool" where
  "resolvesTag el =
     (let text = trim (textContent el)
      in text \<noteq> [] \<and> hasTagClass (classList el) \<and> length text < 20)"

section \<open>Example pages\<close>

text \<open>
  Two cards, each with one name element: \<open>Nova_TV\<close> and \<open>Luna\<close>. The settings block the
  streamer \<open>Nova\<close>.
\<close>

definition plainElement :: "jsstring \<Rightarrow> jsstring list \<Rightarrow> jsstring \<Rightarrow> nat list \<Rightarrow> element" where
  "plainElement t cl txt ds =
     \<lparr>tagName = t, classList = cl, style = Map.empty, textContent = txt, descendants = ds\<rparr>"

definition exampleDoc :: document where
  "exampleDoc =
     [plainElement (u ''li'') [u ''navigation_component_item__iMPOI''] (u ''Nova_TV'') [1],
      plainElement (u ''span'') [u ''name_text__x1''] (u ''Nova_TV'') [],
      plainElement (u ''li'') [u ''navigation_component_item__iMPOI''] (u ''Luna'') [3],
      plainElement (u ''span'') [u ''name_text__x1''] (u ''Luna'') []]"

definition exampleSettings :: settings where
  "exampleSettings =
     \<lparr>masterEnabled = True, streamerEnabled = True, tagEnabled = True,
      blockedStreamers = [u ''Nova''], blockedTags = []\<rparr>"

text \<open>A card of anonymous markup: no descendant, no text.\<close>

definition anonymousDoc :: document where
  "anonymousDoc = [plainElement (u ''div'') [u ''video_card_container__urjO6''] [] []]"

text \<open>
  A page with one card whose name element reads \<open>Foo\<close>, right-clicked: in the variant with
  the browser's menu nothing is blocked yet; in the variant with its own menu \<open>Foo\<close> is
  blocked already.
\<close>

definition fooDoc :: document where
  "fooDoc =
     [plainElement (u ''li'') [u ''navigation_component_item__iMPOI''] (u ''Foo'') [1],
      plainElement (u ''span'') [u ''name_text__x1''] (u ''Foo'') []]"




text \<open>
  Two cards for the tag rule: one with a tag element reading \<open>FPS\<close> and no title, one
  with the title \<open>ranked FPS\<close> and no tag element. The settings block the tag \<open>FPS\<close>.
\<close>

definition tagOnlyDoc :: document where
  "tagOnlyDoc =
     [plainElement (u ''li'') [u ''navigation_component_item__iMPOI''] (u ''Luna FPS'') [1, 2],
      plainElement (u ''span'') [u ''name_text__x1''] (u ''Luna'') [],
      plainElement (u ''span'') [u ''video_card_category__x2''] (u '' FPS '') []]"

definition titleOnlyDoc :: document where
  "titleOnlyDoc =
     [plainElement (u ''li'') [u ''navigation_component_item__iMPOI''] (u ''Luna ranked FPS'') [1, 2],
      plainElement (u ''span'') [u ''name_text__x1''] (u ''Luna'') [],
      plainElement (u ''strong'') [u ''video_card_title__x3''] (u ''ranked FPS'') []]"

definition tagSettings :: settings where
  "tagSettings =
     \<lparr>masterEnabled = True, streamerEnabled = True, tagEnabled = True,
      blockedStreamers = [], blockedTags = [u ''FPS'']\<rparr>"

text \<open>
  A card whose descendants are scanned and resolve nothing: a name element that reads
  \<open>LIVE\<close>, a title element that reads \<open>live\<close> (boilerplate only, nothing is left
  of either), a tag element of 25 characters, a thumbnail without text; the first run of
  Latin letters in the card's text is the excluded word \<open>LIVE\<close>. And a card whose title
  reads \<open>a\<close>, too short for a tag.
\<close>

definition unresolvedDoc :: document where
  "unresolvedDoc =
     [plainElement (u ''li'') [u ''navigation_component_item__iMPOI'']
        (u ''LIVE live 0123456789012345678901234'') [1, 2, 3, 4],
      plainElement (u ''span'') [u ''video_card_thumbnail__x4''] [] [],
      plainElement (u ''span'') [u ''video_card_name__x6''] (u ''LIVE'') [],
      plainElement (u ''strong'') [u ''video_card_title__x3''] (u ''live'') [],
      plainElement (u ''span'') [u ''video_card_tag__x7''] (u ''0123456789012345678901234'') []]"

definition shortTitleDoc :: document where
  "shortTitleDoc =
     [plainElement (u ''li'') [u ''navigation_component_item__iMPOI''] (u ''a'') [1],
      plainElement (u ''strong'') [u ''video_card_title__x3''] (u ''a'') []]"

section \<open>Facts about strings\<close>

lemma js_includes_sublist: "js_includes s t \<longleftrightarrow> sublist t s"
  by (induction s) (auto simp: sublist_Cons_right)

lemma js_includes_Nil [simp]: "js_includes s []"
  by (simp add: js_includes_sublist)

lemma js_includes_refl [simp]: "js_includes s s"
  by (simp add: js_includes_sublist)

lemma isWhiteSpace_toLowerUnit [simp]: "isWhiteSpace (toLowerUnit c) = isWhiteSpace c"
  by (auto simp: isWhiteSpace_def toLowerUnit_def)

lemma trim_toLowerCase: "trim (toLowerCase s) = toLowerCase (trim s)"
proof -
  have d: "dropWhile isWhiteSpace (map toLowerUnit xs) = map toLowerUnit (dropWhile isWhiteSpace xs)"
    for xs
    by (induction xs) simp_all
  show ?thesis
    by (simp add: trim_def toLowerCase_def d rev_map)
qed

lemma sublist_dropWhile: "sublist (dropWhile P xs) xs"
proof -
  have "xs = takeWhile P xs @ dropWhile P xs" by simp
  then show ?thesis by (metis sublist_append_leftI)
qed

lemma sublist_trim: "sublist (trim s) s"
proof -
  have "sublist (dropWhile isWhiteSpace (rev (dropWhile isWhiteSpace s))) (rev (dropWhile isWhiteSpace s))"
    by (rule sublist_dropWhile)
  then have "sublist (trim s) (dropWhile isWhiteSpace s)"
    by (metis trim_def sublist_rev_left rev_rev_ident)
  then show ?thesis
    using sublist_dropWhile sublist_order.order_trans by blast
qed

lemmas str_eval = u_def toLowerCase_def toLowerUnit_def trim_def isWhiteSpace_def

lemmas string_defs = u_def trim_def toLowerCase_def toLowerUnit_def isWhiteSpace_def
  isSeparator_def isHangul_def isLatinLetter_def ciPrefix_def isStopWord_def titleWords_def
  nameBoilerplate_def nameBoilerplate_ctx_def titleBoilerplate_def stopWords_def
  excludedHangul_def excludedLatin_def pushIfAbsent_def

lemmas extract_defs = extractStreamerInfo_def extractStreamerInfo_ctx_def descendantElements_def
  scanElement_def scanName_ctx_def scanTitleTags_ctx_def nameStep_def titleStep_def tagStep_def
  hasClassContaining_def hasTagClass_def addTitleTags_def fallbackName_def fallbackCandidate_def
  emptyInfo_def resolvesName_def resolvesTitle_def resolvesTag_def Let_def

lemmas page_defs = plainElement_def exampleDoc_def exampleSettings_def anonymousDoc_def
  fooDoc_def tagOnlyDoc_def titleOnlyDoc_def tagSettings_def unresolvedDoc_def
  shortTitleDoc_def

lemmas scan_defs = streamCards_def cardSelectors_def querySelectorAll_def upt_rec

lemmas match_defs = shouldHideCard_def shouldHideCardWith_def matchesStreamer_def
  matchesTag_def

section \<open>The streamer rule\<close>

lemma matchesStreamer_sublist:
  "matchesStreamer info b \<longleftrightarrow>
      sublist (trim (toLowerCase b)) (trim (toLowerCase (name info))) \<or>
      sublist (trim (toLowerCase (name info))) (trim (toLowerCase b)) \<or>
      sublist (trim (toLowerCase b)) (toLowerCase (title info))"
  by (simp add: matchesStreamer_def Let_def js_includes_sublist)

text \<open>
  C3, as stated: the streamer rule fires exactly when the lower-cased name contains the
  lower-cased entry, or the entry the name, or the lower-cased title the entry. It fails
  for an entry with white space around it: \<open>matchesStreamer\<close> trims the entry and the
  name before it compares, so the entry \<open>"abc "\<close> matches the name \<open>"xabcy"\<close>, which
  contains \<open>"abc"\<close> and not \<open>"abc "\<close>.
\<close>

theorem streamer_rule_untrimmed_counterexample:
  "matchesStreamer \<lparr>name = u ''xabcy'', title = [], tags = []\<rparr> (u ''abc '') \<and>
   \<not> (sublist (toLowerCase (u ''abc '')) (toLowerCase (u ''xabcy'')) \<or>
      sublist (toLowerCase (u ''xabcy'')) (toLowerCase (u ''abc '')) \<or>
      sublist (toLowerCase (u ''abc '')) (toLowerCase []))"
  by (simp add: matchesStreamer_def Let_def js_includes_sublist [symmetric] str_eval)

text \<open>
  C3, amended: the streamer rule fires for an entry \<open>b\<close> exactly when, after lower-casing
  and trimming the entry and the name, the name contains the entry, or the entry
  contains the name, or the lower-cased (untrimmed) title contains the entry. For an
  entry and a name with no white space around them this is the rule as the claim states
  it. The entry \<open>"abc"\<close> matches the name \<open>"abc123"\<close>; the entry \<open>"xyz"\<close> does not match the
  name \<open>"abc"\<close> when the title does not contain \<open>"xyz"\<close>.
\<close>

theorem matchesStreamer_rule:
  "(matchesStreamer info b \<longleftrightarrow>
      sublist (trim (toLowerCase b)) (trim (toLowerCase (name info))) \<or>
      sublist (trim (toLowerCase (name info))) (trim (toLowerCase b)) \<or>
      sublist (trim (toLowerCase b)) (toLowerCase (title info)))
   \<and> (trim b = b \<and> trim (name info) = name info \<longrightarrow>
        (matchesStreamer info b \<longleftrightarrow>
           sublist (toLowerCase b) (toLowerCase (name info)) \<or>
           sublist (toLowerCase (name info)) (toLowerCase b) \<or>
           sublist (toLowerCase b) (toLowerCase (title info))))
   \<and> matchesStreamer (info\<lparr>name := u ''abc123''\<rparr>) (u ''abc'')
   \<and> (\<not> sublist (u ''xyz'') (toLowerCase (title info)) \<longrightarrow>
        \<not> matchesStreamer (info\<lparr>name := u ''abc''\<rparr>) (u ''xyz''))"
proof (intro conjI impI)
  show "matchesStreamer info b \<longleftrightarrow>
      sublist (trim (toLowerCase b)) (trim (toLowerCase (name info))) \<or>
      sublist (trim (toLowerCase (name info))) (trim (toLowerCase b)) \<or>
      sublist (trim (toLowerCase b)) (toLowerCase (title info))"
    by (rule matchesStreamer_sublist)
next
  assume "trim b = b \<and> trim (name info) = name info"
  then show "matchesStreamer info b \<longleftrightarrow>
           sublist (toLowerCase b) (toLowerCase (name info)) \<or>
           sublist (toLowerCase (name info)) (toLowerCase b) \<or>
           sublist (toLowerCase b) (toLowerCase (title info))"
    by (simp add: matchesStreamer_sublist trim_toLowerCase)
next
  show "matchesStreamer (info\<lparr>name := u ''abc123''\<rparr>) (u ''abc'')"
    by (simp add: matchesStreamer_def Let_def str_eval)
next
  assume "\<not> sublist (u ''xyz'') (toLowerCase (title info))"
  moreover have "trim (toLowerCase (u ''xyz'')) = u ''xyz''"
    "trim (toLowerCase (u ''abc'')) = u ''abc''"
    by (simp_all add: str_eval)
  moreover have "\<not> sublist (u ''xyz'') (u ''abc'')" "\<not> sublist (u ''abc'') (u ''xyz'')"
    by (simp_all add: js_includes_sublist [symmetric] u_def)
  ultimately show "\<not> matchesStreamer (info\<lparr>name := u ''abc''\<rparr>) (u ''xyz'')"
    by (simp add: matchesStreamer_sublist)
qed

theorem matchesStreamer_rule_witness:
  "trim (u ''Nova'') = u ''Nova'' \<and> trim (u ''Nova_TV'') = u ''Nova_TV'' \<and>
   matchesStreamer \<lparr>name = u ''Nova_TV'', title = u ''hello'', tags = []\<rparr> (u ''Nova'') \<and>
   sublist (toLowerCase (u ''Nova'')) (toLowerCase (u ''Nova_TV'')) \<and>
   \<not> sublist (u ''xyz'') (toLowerCase (u ''hello'')) \<and>
   \<not> matchesStreamer \<lparr>name = u ''abc'', title = u ''hello'', tags = []\<rparr> (u ''xyz'')"
proof -
  have t: "trim (u ''Nova'') = u ''Nova'' \<and> trim (u ''Nova_TV'') = u ''Nova_TV''"
    by (simp add: str_eval)
  have s: "sublist (toLowerCase (u ''Nova'')) (toLowerCase (u ''Nova_TV''))"
    by (simp add: js_includes_sublist [symmetric] str_eval)
  have x: "\<not> sublist (u ''xyz'') (toLowerCase (u ''hello''))"
    by (simp add: js_includes_sublist [symmetric] str_eval)
  show ?thesis
    using matchesStreamer_rule
      [of "\<lparr>name = u ''Nova_TV'', title = u ''hello'', tags = []\<rparr>" "u ''Nova''"] t s x
    by (simp add: trim_toLowerCase)
qed

section \<open>The cards of a document\<close>

lemma set_foldl_pushIfAbsent: "set (foldl pushIfAbsent acc xs) = set acc \<union> set xs"
  by (induction xs arbitrary: acc) (auto simp: pushIfAbsent_def)

lemma distinct_foldl_pushIfAbsent: "distinct acc \<Longrightarrow> distinct (foldl pushIfAbsent acc xs)"
  by (induction xs arbitrary: acc) (auto simp: pushIfAbsent_def)

lemma parse_cardSelectorTexts: "map parseSelector cardSelectorTexts = map Some cardSelectors"
  by (simp add: cardSelectorTexts_def cardSelectors_def parseSelector_def isIdentUnit_def
      isDigitUnit_def u_def toLowerCase_def toLowerUnit_def Let_def)

lemma collectCards_parsed:
  "map parseSelector texts = map Some sels \<Longrightarrow>
   collectCards doc texts acc = Inr (acc @ concat (map (querySelectorAll doc) sels))"
proof (induction texts arbitrary: sels acc)
  case Nil
  then show ?case by simp
next
  case (Cons t texts)
  then obtain sel sels' where s: "sels = sel # sels'" "parseSelector t = Some sel"
    "map parseSelector texts = map Some sels'"
    by (cases sels) auto
  show ?case
    using Cons.IH [OF s(3)] by (simp add: s querySelectorAllText_def)
qed

lemma findStreamCards_streamCards: "findStreamCards doc = Inr (streamCards doc)"
  by (simp add: findStreamCards_def collectCards_parsed [OF parse_cardSelectorTexts]
      streamCards_def)

lemma querySelectorAll_bound: "i \<in> set (querySelectorAll doc sel) \<Longrightarrow> i < length doc"
  by (simp add: querySelectorAll_def)

lemma streamCards_bound: "i \<in> set (streamCards doc) \<Longrightarrow> i < length doc"
  by (auto simp: streamCards_def set_foldl_pushIfAbsent querySelectorAll_bound)

lemma distinct_streamCards: "distinct (streamCards doc)"
  by (simp add: streamCards_def distinct_foldl_pushIfAbsent)

lemma unmarked_pushIfAbsent_processed [simp]:
  "unmarked (pushIfAbsent cl processedClass) = unmarked cl"
  by (simp add: unmarked_def pushIfAbsent_def)

lemma unmarked_pushIfAbsent_hidden [simp]:
  "unmarked (pushIfAbsent cl hiddenClass) = unmarked cl"
  by (simp add: unmarked_def pushIfAbsent_def)

lemma unmarked_removeAll_hidden [simp]:
  "unmarked (removeAll hiddenClass cl) = unmarked cl"
  by (induction cl) (auto simp: unmarked_def)

lemma alike_refl [simp]: "alike e e"
  by (simp add: alike_def)

lemma alike_sym: "alike e e' \<Longrightarrow> alike e' e"
  by (simp add: alike_def)

lemma alike_trans: "alike e e' \<Longrightarrow> alike e' e'' \<Longrightarrow> alike e e''"
  by (simp add: alike_def)

lemma alike_setCardVisibility [simp]: "alike (setCardVisibility e v) e"
  by (simp add: alike_def setCardVisibility_def Let_def)

lemma alike_showCard [simp]: "alike (showCard e) e"
  by (simp add: alike_def showCard_def)

lemma sameContent_refl [simp]: "sameContent d d"
  by (simp add: sameContent_def list_all2_refl)

lemma sameContent_length: "sameContent d d' \<Longrightarrow> length d = length d'"
  by (simp add: sameContent_def list_all2_lengthD)

lemma sameContent_nth: "sameContent d d' \<Longrightarrow> i < length d \<Longrightarrow> alike (d ! i) (d' ! i)"
  by (simp add: sameContent_def list_all2_nthD)

lemma sameContent_update:
  "sameContent d d' \<Longrightarrow> alike (d ! i) e \<Longrightarrow> sameContent d (d'[i := e])"
  unfolding sameContent_def
  by (metis list_all2_update_cong list_update_id)

lemma list_ex_unmarked:
  assumes "\<not> P processedClass" "\<not> P hiddenClass"
  shows "list_ex P (unmarked cl) = list_ex P cl"
  using assms by (induction cl) (auto simp: unmarked_def)

lemma member_unmarked:
  "c \<noteq> processedClass \<Longrightarrow> c \<noteq> hiddenClass \<Longrightarrow> c \<in> set (unmarked cl) \<longleftrightarrow> c \<in> set cl"
  by (auto simp: unmarked_def)

lemma matchesSelector_alike:
  assumes "markerBlind sel" "alike e e'"
  shows "matchesSelector sel e = matchesSelector sel e'"
proof -
  have u: "unmarked (classList e) = unmarked (classList e')" and t: "tagName e = tagName e'"
    using assms(2) by (simp_all add: alike_def)
  show ?thesis
  proof (cases sel)
    case (ByClass c)
    then show ?thesis using assms(1) u member_unmarked [of c] by (metis markerBlind.simps(1) matchesSelector.simps(1))
  next
    case (ByTagClass t c)
    then show ?thesis using assms(1) u t member_unmarked [of c] by (metis markerBlind.simps(2) matchesSelector.simps(2))
  next
    case (ByClassPart p)
    then show ?thesis using assms(1) u list_ex_unmarked [of "\<lambda>c. js_includes c p"]
      by (metis markerBlind.simps(3) matchesSelector.simps(3))
  next
    case (ByTagClassPart t p)
    then show ?thesis using assms(1) u t list_ex_unmarked [of "\<lambda>c. js_includes c p"]
      by (metis markerBlind.simps(4) matchesSelector.simps(4))
  qed
qed

lemma querySelectorAll_sameContent:
  assumes "markerBlind sel" "sameContent d d'"
  shows "querySelectorAll d sel = querySelectorAll d' sel"
proof -
  have "length d = length d'" using assms(2) by (rule sameContent_length)
  moreover have "matchesSelector sel (d ! i) = matchesSelector sel (d' ! i)" if "i < length d" for i
    using matchesSelector_alike [OF assms(1) sameContent_nth [OF assms(2) that]] .
  ultimately show ?thesis
    unfolding querySelectorAll_def by (auto intro: filter_cong)
qed

lemma markerBlind_cardSelectors: "list_all markerBlind cardSelectors"
  by (simp add: cardSelectors_def processedClass_def hiddenClass_def u_def)

section \<open>The extractor does not see the markers\<close>

lemma hasClassContaining_unmarked:
  assumes "\<not> js_includes (toLowerCase processedClass) (toLowerCase s)"
    and "\<not> js_includes (toLowerCase hiddenClass) (toLowerCase s)"
  shows "hasClassContaining (unmarked cl) s = hasClassContaining cl s"
  unfolding hasClassContaining_def using assms by (rule list_ex_unmarked)

lemmas marker_eval = processedClass_def hiddenClass_def u_def toLowerCase_def toLowerUnit_def

lemma hasClassContaining_alike:
  assumes "alike e e'"
    and "s \<in> {u ''channel'', u ''name'', u ''ellipsis'', u ''title'', u ''tag'', u ''category'', u ''genre''}"
  shows "hasClassContaining (classList e) s = hasClassContaining (classList e') s"
proof -
  have "\<not> js_includes (toLowerCase processedClass) (toLowerCase s)"
    using assms(2) by (auto simp: marker_eval)
  moreover have "\<not> js_includes (toLowerCase hiddenClass) (toLowerCase s)"
    using assms(2) by (auto simp: marker_eval)
  ultimately have "hasClassContaining (unmarked cl) s = hasClassContaining cl s" for cl
    by (rule hasClassContaining_unmarked)
  moreover have "unmarked (classList e) = unmarked (classList e')"
    using assms(1) by (simp add: alike_def)
  ultimately show ?thesis by metis
qed

lemma nameStep_alike:
  "alike e e' \<Longrightarrow> nameStep bp (classList e) t info = nameStep bp (classList e') t info"
  by (simp add: nameStep_def hasClassContaining_alike [of e e'])

lemma titleStep_alike:
  "alike e e' \<Longrightarrow> titleStep (classList e) t info = titleStep (classList e') t info"
  by (simp add: titleStep_def hasClassContaining_alike [of e e'])

lemma tagStep_alike:
  "alike e e' \<Longrightarrow> tagStep (classList e) t info = tagStep (classList e') t info"
  by (simp add: tagStep_def hasClassContaining_alike [of e e'])

lemma scanElement_alike: "alike e e' \<Longrightarrow> scanElement e info = scanElement e' info"
  using nameStep_alike [of e e'] titleStep_alike [of e e'] tagStep_alike [of e e']
  by (simp add: scanElement_def Let_def alike_def)

lemma fold_alike:
  assumes "\<And>e e' info. alike e e' \<Longrightarrow> f e info = f e' info"
  shows "list_all2 alike es es' \<Longrightarrow> fold f es info = fold f es' info"
proof (induction es es' arbitrary: info rule: list_all2_induct)
  case Nil
  then show ?case by simp
next
  case (Cons e es e' es')
  then show ?case using assms [of e e'] by simp
qed

lemma descendantElements_alike:
  assumes "sameContent d d'" "alike c c'"
  shows "list_all2 alike (descendantElements d c) (descendantElements d' c')"
proof -
  have l: "length d = length d'" using assms(1) by (rule sameContent_length)
  have ds: "descendants c = descendants c'" using assms(2) by (simp add: alike_def)
  have "list_all2 alike (map (\<lambda>i. d ! i) xs) (map (\<lambda>i. d' ! i) xs)" if "\<forall>i\<in>set xs. i < length d" for xs
    using that sameContent_nth [OF assms(1)] by (induction xs) auto
  then show ?thesis
    unfolding descendantElements_def l [symmetric] ds by simp
qed

lemma fallbackName_alike: "alike c c' \<Longrightarrow> fallbackName c info = fallbackName c' info"
  by (simp add: fallbackName_def alike_def)

lemma extractStreamerInfo_alike:
  assumes "sameContent d d'" "alike c c'"
  shows "extractStreamerInfo d c = extractStreamerInfo d' c'"
proof -
  have "fold scanElement (descendantElements d c) emptyInfo =
        fold scanElement (descendantElements d' c') emptyInfo"
    by (rule fold_alike [OF scanElement_alike descendantElements_alike [OF assms]])
  then show ?thesis
    by (simp add: extractStreamerInfo_def fallbackName_alike [OF assms(2)])
qed

lemma shouldHideCard_alike:
  assumes "sameContent d d'" "alike c c'"
  shows "shouldHideCard st d c = shouldHideCard st d' c'"
  by (simp add: shouldHideCard_def shouldHideCardWith_def extractStreamerInfo_alike [OF assms])

lemma findStreamCards_sameContent:
  assumes "sameContent d d'"
  shows "streamCards d = streamCards d'"
proof -
  have "querySelectorAll d sel = querySelectorAll d' sel" if "sel \<in> set cardSelectors" for sel
    using markerBlind_cardSelectors querySelectorAll_sameContent [OF _ assms] that
    by (simp add: list_all_iff)
  then have "map (querySelectorAll d) cardSelectors = map (querySelectorAll d') cardSelectors"
    by (rule map_cong [OF refl])
  then show ?thesis by (simp only: streamCards_def)
qed

text \<open>The loop of a pass, card by card.\<close>

lemma pass_fold:
  assumes "sameContent d0 d" "distinct cs" "\<forall>c\<in>set cs. c < length d"
  shows "length (fold (processCardWith extractStreamerInfo st) cs d) = length d \<and>
         sameContent d0 (fold (processCardWith extractStreamerInfo st) cs d) \<and>
         (\<forall>i<length d. fold (processCardWith extractStreamerInfo st) cs d ! i =
            (if i \<in> set cs
             then setCardVisibility (d ! i) (\<not> shouldHideCard st d0 (d0 ! i))
             else d ! i))"
  using assms
proof (induction cs arbitrary: d)
  case Nil
  then show ?case by simp
next
  case (Cons c cs)
  let ?d1 = "processCardWith extractStreamerInfo st c d"
  have l0: "length d0 = length d" using Cons.prems(1) by (rule sameContent_length)
  have c: "c < length d" using Cons.prems(3) by simp
  have a: "alike (d0 ! c) (d ! c)" using sameContent_nth [OF Cons.prems(1)] c l0 by simp
  have v: "shouldHideCard st d (d ! c) = shouldHideCard st d0 (d0 ! c)"
    using shouldHideCard_alike [OF Cons.prems(1) a] by simp
  have d1: "?d1 = d[c := setCardVisibility (d ! c) (\<not> shouldHideCard st d0 (d0 ! c))]"
    using v by (simp add: processCardWith_def shouldHideCard_def)
  have s1: "sameContent d0 ?d1"
    unfolding d1
    by (rule sameContent_update [OF Cons.prems(1)])
       (metis a alike_setCardVisibility alike_sym alike_trans)
  have "distinct cs" "\<forall>c\<in>set cs. c < length ?d1" "c \<notin> set cs"
    using Cons.prems by (simp_all add: d1)
  note ih = Cons.IH [OF s1 this(1) this(2)]
  show ?case
    using ih c \<open>c \<notin> set cs\<close> by (auto simp: d1 nth_list_update)
qed

section \<open>Showing every card\<close>

lemma showAll_fold_length:
  "length (fold (\<lambda>cardId d. d[cardId := showCard (d ! cardId)]) cs d) = length d"
  by (induction cs arbitrary: d) simp_all

lemma showAll_fold_nth:
  "distinct cs \<Longrightarrow> i < length d \<Longrightarrow>
   fold (\<lambda>cardId d. d[cardId := showCard (d ! cardId)]) cs d ! i =
     (if i \<in> set cs then showCard (d ! i) else d ! i)"
proof (induction cs arbitrary: d)
  case Nil
  then show ?case by simp
next
  case (Cons c cs)
  let ?d1 = "d[c := showCard (d ! c)]"
  have ih: "fold (\<lambda>cardId d. d[cardId := showCard (d ! cardId)]) cs ?d1 ! i =
     (if i \<in> set cs then showCard (?d1 ! i) else ?d1 ! i)"
    using Cons.prems by (intro Cons.IH) simp_all
  have "c \<notin> set cs" using Cons.prems by simp
  show ?case
  proof (cases "i = c")
    case True
    then show ?thesis using ih \<open>c \<notin> set cs\<close> Cons.prems(2) by simp
  next
    case False
    then show ?thesis using ih by simp
  qed
qed

lemma showAllStreamCards_length [simp]: "length (showAllStreamCards doc) = length doc"
  by (simp add: showAllStreamCards_def showAll_fold_length)

lemma showAllStreamCards_nth:
  assumes "i < length doc"
  shows "showAllStreamCards doc ! i =
      (if hiddenByBlocker (doc ! i) then showCard (doc ! i) else doc ! i)"
proof -
  have "distinct (querySelectorAll doc (ByClass hiddenClass))"
    by (simp add: querySelectorAll_def)
  from showAll_fold_nth [OF this assms]
  show ?thesis
    using assms by (simp add: showAllStreamCards_def querySelectorAll_def hiddenByBlocker_def)
qed

lemma not_hidden_showCard [simp]: "\<not> hiddenByBlocker (showCard e)"
  by (simp add: hiddenByBlocker_def showCard_def)

lemma showAllStreamCards_not_hidden:
  "i < length doc \<Longrightarrow> \<not> hiddenByBlocker (showAllStreamCards doc ! i)"
  by (simp add: showAllStreamCards_nth)

lemma showAllStreamCards_idem: "showAllStreamCards (showAllStreamCards doc) = showAllStreamCards doc"
proof (rule nth_equalityI)
  show "length (showAllStreamCards (showAllStreamCards doc)) = length (showAllStreamCards doc)"
    by simp
next
  fix i assume "i < length (showAllStreamCards (showAllStreamCards doc))"
  then have i: "i < length doc" by simp
  then have "showAllStreamCards (showAllStreamCards doc) ! i =
      (if hiddenByBlocker (showAllStreamCards doc ! i) then showCard (showAllStreamCards doc ! i)
       else showAllStreamCards doc ! i)"
    by (intro showAllStreamCards_nth) simp
  then show "showAllStreamCards (showAllStreamCards doc) ! i = showAllStreamCards doc ! i"
    using showAllStreamCards_not_hidden [OF i] by simp
qed

section \<open>Setting the visibility of a card\<close>

lemma applyBlocking_disabled:
  "\<not> masterEnabled st \<or> (blockedStreamers st = [] \<and> blockedTags st = []) \<Longrightarrow>
   applyBlocking st doc = Inr (showAllStreamCards doc)"
  by (auto simp: applyBlocking_def applyBlockingWith_def Let_def)

lemma applyBlocking_enabled:
  "masterEnabled st \<Longrightarrow> blockedStreamers st \<noteq> [] \<or> blockedTags st \<noteq> [] \<Longrightarrow>
   applyBlocking st doc = Inr (fold (processCardWith extractStreamerInfo st) (streamCards doc) doc)"
  by (auto simp: applyBlocking_def applyBlockingWith_def Let_def findStreamCards_streamCards)

lemma setProperties_map_add: "setProperties ps m = m ++ map_of (rev ps)"
  unfolding setProperties_def
  by (induction ps arbitrary: m)
     (auto simp: fun_eq_iff map_add_def split: option.splits)

lemma removeProperties_restrict: "removeProperties ks m = m |` (- set ks)"
  unfolding removeProperties_def
  by (induction ks arbitrary: m) (auto simp: restrict_map_def fun_eq_iff)

lemma setProperties_idem: "setProperties ps (setProperties ps m) = setProperties ps m"
  by (auto simp: setProperties_map_add fun_eq_iff map_add_def split: option.splits)

lemma removeProperties_idem: "removeProperties ks (removeProperties ks m) = removeProperties ks m"
  by (simp add: removeProperties_restrict)

lemma processed_neq_hidden: "processedClass \<noteq> hiddenClass"
  by (simp add: processedClass_def hiddenClass_def u_def)

lemma setCardVisibility_idem:
  "setCardVisibility (setCardVisibility c v) v = setCardVisibility c v"
proof (cases v)
  case True
  have "removeAll hiddenClass (pushIfAbsent (removeAll hiddenClass (pushIfAbsent xs processedClass)) processedClass) =
        removeAll hiddenClass (pushIfAbsent xs processedClass)" for xs
    using processed_neq_hidden by (simp add: pushIfAbsent_def)
  with True show ?thesis
    by (simp add: setCardVisibility_def Let_def removeProperties_idem)
next
  case False
  have "pushIfAbsent (pushIfAbsent (pushIfAbsent (pushIfAbsent xs processedClass) hiddenClass) processedClass) hiddenClass =
        pushIfAbsent (pushIfAbsent xs processedClass) hiddenClass" for xs
    by (simp add: pushIfAbsent_def)
  with False show ?thesis
    by (simp add: setCardVisibility_def Let_def setProperties_idem)
qed

lemma pass_idem:
  assumes r_def: "r = fold (processCardWith extractStreamerInfo st) (streamCards doc) doc"
  shows "fold (processCardWith extractStreamerInfo st) (streamCards r) r = r"
proof -
  have b: "\<forall>c\<in>set (streamCards doc). c < length doc"
    by (simp add: streamCards_bound)
  from pass_fold [OF sameContent_refl distinct_streamCards b, of st]
  have l: "length r = length doc" and s: "sameContent doc r"
    and n: "\<And>i. i < length doc \<Longrightarrow> r ! i =
            (if i \<in> set (streamCards doc)
             then setCardVisibility (doc ! i) (\<not> shouldHideCard st doc (doc ! i))
             else doc ! i)"
    unfolding r_def by auto
  have cs: "streamCards r = streamCards doc"
    using findStreamCards_sameContent [OF s] by simp
  have b': "\<forall>c\<in>set (streamCards doc). c < length r"
    using b l by simp
  from pass_fold [OF s distinct_streamCards b', of st]
  have l': "length (fold (processCardWith extractStreamerInfo st) (streamCards doc) r) = length r"
    and n': "\<And>i. i < length r \<Longrightarrow> fold (processCardWith extractStreamerInfo st) (streamCards doc) r ! i =
            (if i \<in> set (streamCards doc)
             then setCardVisibility (r ! i) (\<not> shouldHideCard st doc (doc ! i))
             else r ! i)"
    by auto
  show ?thesis
    unfolding cs
  proof (rule nth_equalityI)
    show "length (fold (processCardWith extractStreamerInfo st) (streamCards doc) r) = length r"
      by (rule l')
  next
    fix i assume "i < length (fold (processCardWith extractStreamerInfo st) (streamCards doc) r)"
    then have i: "i < length r" "i < length doc" using l l' by simp_all
    show "fold (processCardWith extractStreamerInfo st) (streamCards doc) r ! i = r ! i"
      using n' [OF i(1)] n [OF i(2)] by (simp add: setCardVisibility_idem)
  qed
qed

lemma hiddenByBlocker_setCardVisibility [simp]:
  "hiddenByBlocker (setCardVisibility e v) = (\<not> v)"
  by (simp add: hiddenByBlocker_def setCardVisibility_def Let_def pushIfAbsent_def)

lemma shouldHideCard_iff:
  "shouldHideCard st doc c \<longleftrightarrow>
     streamerEnabled st \<and> blockedStreamers st \<noteq> [] \<and>
       list_ex (matchesStreamer (extractStreamerInfo doc c)) (blockedStreamers st) \<or>
     tagEnabled st \<and> blockedTags st \<noteq> [] \<and>
       list_ex (matchesTag (extractStreamerInfo doc c)) (blockedTags st)"
  by (simp add: shouldHideCard_def shouldHideCardWith_def Let_def)

lemma pass_nth:
  assumes "i < length doc"
  shows "fold (processCardWith extractStreamerInfo st) (streamCards doc) doc ! i =
           (if i \<in> set (streamCards doc)
            then setCardVisibility (doc ! i) (\<not> shouldHideCard st doc (doc ! i))
            else doc ! i)"
proof -
  have b: "\<forall>c\<in>set (streamCards doc). c < length doc"
    by (simp add: streamCards_bound)
  from pass_fold [OF sameContent_refl distinct_streamCards b, of st] assms
  show ?thesis by blast
qed

lemma pass_length:
  "length (fold (processCardWith extractStreamerInfo st) (streamCards doc) doc) = length doc"
proof -
  have b: "\<forall>c\<in>set (streamCards doc). c < length doc"
    by (simp add: streamCards_bound)
  from pass_fold [OF sameContent_refl distinct_streamCards b, of st]
  show ?thesis by blast
qed

section \<open>The example pages, evaluated\<close>

lemma ex_cards: "streamCards exampleDoc = [0, 2]"
  by (simp add: scan_defs page_defs string_defs)

lemma ex_info0: "extractStreamerInfo exampleDoc (exampleDoc ! 0) = \<lparr>name = u ''Nova_TV'', title = [], tags = []\<rparr>"
  by (simp add: extract_defs page_defs string_defs)

lemma ex_info2: "extractStreamerInfo exampleDoc (exampleDoc ! 2) = \<lparr>name = u ''Luna'', title = [], tags = []\<rparr>"
  by (simp add: extract_defs page_defs string_defs)

lemma ex_hide0: "shouldHideCard exampleSettings exampleDoc (exampleDoc ! 0)"
  by (simp add: match_defs ex_info0 exampleSettings_def string_defs)

lemma ex_hide2: "\<not> shouldHideCard exampleSettings exampleDoc (exampleDoc ! 2)"
  by (simp add: match_defs ex_info2 exampleSettings_def string_defs)

lemma anon_info: "extractStreamerInfo anonymousDoc (anonymousDoc ! 0) = \<lparr>name = [], title = [], tags = []\<rparr>"
  by (simp add: extract_defs page_defs string_defs)

lemma anon_cards: "streamCards anonymousDoc = [0]"
  by (simp add: scan_defs page_defs string_defs)

lemma anon_hide: "shouldHideCard exampleSettings anonymousDoc (anonymousDoc ! 0)"
  by (simp add: match_defs anon_info exampleSettings_def string_defs)

section \<open>The reconciliation pass\<close>

text \<open>
  C5: \<open>setCardVisibility\<close> is idempotent: setting the same visibility twice leaves the
  card (classes, hidden marker and inline style) as setting it once does. A pass over a
  document returns a document on which the same pass, under the same settings, changes
  nothing.
\<close>

theorem pass_idempotent:
  "setCardVisibility (setCardVisibility c v) v = setCardVisibility c v \<and>
   (\<exists>d. applyBlocking st doc = Inr d \<and> applyBlocking st d = Inr d)"
proof
  show "setCardVisibility (setCardVisibility c v) v = setCardVisibility c v"
    by (rule setCardVisibility_idem)
next
  show "\<exists>d. applyBlocking st doc = Inr d \<and> applyBlocking st d = Inr d"
  proof (cases "masterEnabled st \<and> (blockedStreamers st \<noteq> [] \<or> blockedTags st \<noteq> [])")
    case True
    then have "applyBlocking st d = Inr (fold (processCardWith extractStreamerInfo st) (streamCards d) d)" for d
      by (simp add: applyBlocking_enabled)
    moreover have "fold (processCardWith extractStreamerInfo st)
            (streamCards (fold (processCardWith extractStreamerInfo st) (streamCards doc) doc))
            (fold (processCardWith extractStreamerInfo st) (streamCards doc) doc) =
          fold (processCardWith extractStreamerInfo st) (streamCards doc) doc"
      by (rule pass_idem) simp
    ultimately show ?thesis by simp
  next
    case False
    then have "applyBlocking st d = Inr (showAllStreamCards d)" for d
      by (intro applyBlocking_disabled) blast
    then show ?thesis by (simp add: showAllStreamCards_idem)
  qed
qed

lemma style_showCard_hidden:
  "style (showCard (setCardVisibility e False)) =
     removeProperties [''display''] (setProperties hiddenStyle (style e))"
  by (simp add: showCard_def setCardVisibility_def Let_def)

text \<open>
  C1, at a failing input: the first card of the example page is hidden by a pass; then
  the master switch is turned off and a pass runs. \<open>showAllStreamCards\<close> removes the
  marker and the \<open>display\<close> property only: the card keeps \<open>visibility: hidden\<close>,
  \<open>opacity: 0\<close>, zero size and the off-screen position that \<open>setCardVisibility\<close> gave it,
  and a further pass with the switch off leaves it so.
\<close>

theorem disabled_pass_keeps_suppression:
  "\<exists>d1 d2. applyBlocking exampleSettings exampleDoc = Inr d1 \<and> hiddenByBlocker (d1 ! 0) \<and>
     applyBlocking (exampleSettings\<lparr>masterEnabled := False\<rparr>) d1 = Inr d2 \<and>
     applyBlocking (exampleSettings\<lparr>masterEnabled := False\<rparr>) d2 = Inr d2 \<and>
     \<not> hiddenByBlocker (d2 ! 0) \<and>
     style (d2 ! 0) ''display'' = None \<and>
     style (d2 ! 0) ''visibility'' = Some ''hidden'' \<and>
     style (d2 ! 0) ''opacity'' = Some ''0'' \<and>
     style (d2 ! 0) ''height'' = Some ''0px'' \<and>
     style (d2 ! 0) ''width'' = Some ''0px'' \<and>
     style (d2 ! 0) ''position'' = Some ''absolute'' \<and>
     style (d2 ! 0) ''left'' = Some ''-9999px'' \<and>
     style (d2 ! 0) ''top'' = Some ''-9999px''"
proof -
  let ?d1 = "fold (processCardWith extractStreamerInfo exampleSettings) (streamCards exampleDoc) exampleDoc"
  let ?off = "exampleSettings\<lparr>masterEnabled := False\<rparr>"
  let ?d2 = "showAllStreamCards ?d1"
  have l: "0 < length exampleDoc" by (simp add: exampleDoc_def)
  have a1: "applyBlocking exampleSettings exampleDoc = Inr ?d1"
    by (rule applyBlocking_enabled) (simp_all add: exampleSettings_def)
  have n1: "?d1 ! 0 = setCardVisibility (exampleDoc ! 0) False"
    using pass_nth [OF l, of exampleSettings] ex_hide0 by (simp add: ex_cards)
  have l1: "0 < length ?d1"
    using l by (simp add: pass_length)
  have a2: "applyBlocking ?off d = Inr (showAllStreamCards d)" for d
    by (rule applyBlocking_disabled) simp
  have n2: "?d2 ! 0 = showCard (setCardVisibility (exampleDoc ! 0) False)"
    using showAllStreamCards_nth [OF l1] n1 by simp
  have s: "style (?d2 ! 0) = removeProperties [''display''] (setProperties hiddenStyle (style (exampleDoc ! 0)))"
    by (simp only: n2 style_showCard_hidden)
  have "hiddenByBlocker (?d1 ! 0)" by (simp add: n1)
  moreover have "\<not> hiddenByBlocker (?d2 ! 0)" by (simp add: n2)
  moreover have "style (?d2 ! 0) ''display'' = None"
    "style (?d2 ! 0) ''visibility'' = Some ''hidden''"
    "style (?d2 ! 0) ''opacity'' = Some ''0''"
    "style (?d2 ! 0) ''height'' = Some ''0px''"
    "style (?d2 ! 0) ''width'' = Some ''0px''"
    "style (?d2 ! 0) ''position'' = Some ''absolute''"
    "style (?d2 ! 0) ''left'' = Some ''-9999px''"
    "style (?d2 ! 0) ''top'' = Some ''-9999px''"
    unfolding s by (simp_all add: removeProperties_def setProperties_def hiddenStyle_def)
  moreover have "applyBlocking ?off ?d2 = Inr ?d2"
    by (simp add: a2 showAllStreamCards_idem)
  ultimately show ?thesis
    using a1 a2 [of ?d1] by blast
qed

lemma hiddenInPage_setCardVisibility [simp]:
  "hiddenInPage (setCardVisibility e v) = (\<not> v)"
  by (cases v)
     (simp_all add: hiddenInPage_def setCardVisibility_def Let_def removeProperties_def
        setProperties_def suppressionProperties_def hiddenStyle_def)

lemma hiddenInPage_showCard_hidden: "hiddenInPage (showCard (setCardVisibility e False))"
  by (simp add: hiddenInPage_def style_showCard_hidden removeProperties_def setProperties_def
      hiddenStyle_def)

lemma sameContent_trans: "sameContent a b \<Longrightarrow> sameContent b c \<Longrightarrow> sameContent a c"
  unfolding sameContent_def
  by (rule list_all2_trans [where ?P1.0 = alike and ?P2.0 = alike]) (auto intro: alike_trans)

lemma sameContent_showAll: "sameContent doc (showAllStreamCards doc)"
  unfolding sameContent_def list_all2_conv_all_nth
  by (auto simp: showAllStreamCards_nth intro: alike_sym)

lemma sameContent_pass:
  "sameContent doc (fold (processCardWith extractStreamerInfo st) (streamCards doc) doc)"
proof -
  have b: "\<forall>c\<in>set (streamCards doc). c < length doc"
    by (simp add: streamCards_bound)
  from pass_fold [OF sameContent_refl distinct_streamCards b, of st]
  show ?thesis by blast
qed

text \<open>
  With the master switch on and a blocked entry, a pass puts a card of the catalog out
  of sight, and marks it, exactly when \<open>shouldHideCard\<close> says so: when a rule fires in a
  category that is switched on and has entries.
\<close>

lemma enabled_pass_hides_iff:
  assumes "masterEnabled st" and "blockedStreamers st \<noteq> [] \<or> blockedTags st \<noteq> []"
    and "i \<in> set (streamCards doc)"
  shows "\<exists>d. applyBlocking st doc = Inr d \<and>
           (hiddenInPage (d ! i) \<longleftrightarrow> shouldHideCard st doc (doc ! i)) \<and>
           (hiddenByBlocker (d ! i) \<longleftrightarrow> shouldHideCard st doc (doc ! i))"
proof -
  have "fold (processCardWith extractStreamerInfo st) (streamCards doc) doc ! i =
        setCardVisibility (doc ! i) (\<not> shouldHideCard st doc (doc ! i))"
    using pass_nth [OF streamCards_bound [OF assms(3)], of st] assms(3) by simp
  then show ?thesis
    using applyBlocking_enabled [OF assms(1,2), of doc] by simp
qed

text \<open>
  C4, at a failing input: the first card of the example page is hidden by a pass, then
  the master switch is turned off and a pass runs. The card is still a card of the
  catalog and the master switch is off, so no rule may hide it; yet it is out of sight,
  because \<open>showAllStreamCards\<close> removes the marker and the \<open>display\<close> property and
  leaves \<open>visibility: hidden\<close> and \<open>opacity: 0\<close> in its style.
\<close>

theorem master_off_card_stays_hidden:
  "\<exists>d1 d2. applyBlocking exampleSettings exampleDoc = Inr d1 \<and>
     applyBlocking (exampleSettings\<lparr>masterEnabled := False\<rparr>) d1 = Inr d2 \<and>
     findStreamCards d2 = Inr [0, 2] \<and>
     \<not> masterEnabled (exampleSettings\<lparr>masterEnabled := False\<rparr>) \<and>
     \<not> hiddenByBlocker (d2 ! 0) \<and> hiddenInPage (d2 ! 0) \<and>
     style (d2 ! 0) ''visibility'' = Some ''hidden'' \<and> style (d2 ! 0) ''opacity'' = Some ''0''"
proof -
  let ?d1 = "fold (processCardWith extractStreamerInfo exampleSettings) (streamCards exampleDoc) exampleDoc"
  let ?off = "exampleSettings\<lparr>masterEnabled := False\<rparr>"
  let ?d2 = "showAllStreamCards ?d1"
  have l: "0 < length exampleDoc" by (simp add: exampleDoc_def)
  have a1: "applyBlocking exampleSettings exampleDoc = Inr ?d1"
    by (rule applyBlocking_enabled) (simp_all add: exampleSettings_def)
  have n1: "?d1 ! 0 = setCardVisibility (exampleDoc ! 0) False"
    using pass_nth [OF l, of exampleSettings] ex_hide0 by (simp add: ex_cards)
  have l1: "0 < length ?d1"
    using l by (simp add: pass_length)
  have a2: "applyBlocking ?off ?d1 = Inr ?d2"
    by (rule applyBlocking_disabled) simp
  have n2: "?d2 ! 0 = showCard (setCardVisibility (exampleDoc ! 0) False)"
    using showAllStreamCards_nth [OF l1] n1 by simp
  have "sameContent exampleDoc ?d2"
    by (rule sameContent_trans [OF sameContent_pass sameContent_showAll])
  then have "streamCards ?d2 = streamCards exampleDoc"
    by (rule findStreamCards_sameContent [symmetric])
  then have c: "findStreamCards ?d2 = Inr [0, 2]"
    by (simp add: findStreamCards_streamCards ex_cards)
  have "\<not> hiddenByBlocker (?d2 ! 0)" by (simp add: n2)
  moreover have "hiddenInPage (?d2 ! 0)"
    by (simp only: n2 hiddenInPage_showCard_hidden)
  moreover have "style (?d2 ! 0) ''visibility'' = Some ''hidden''"
    "style (?d2 ! 0) ''opacity'' = Some ''0''"
    by (simp_all add: n2 style_showCard_hidden removeProperties_def setProperties_def
        hiddenStyle_def)
  moreover have "\<not> masterEnabled ?off" by simp
  ultimately show ?thesis
    using a1 a2 c by blast
qed

text \<open>
  C2, at a failing input: a card of anonymous markup yields the empty record. The
  streamer rule asks whether the blocked entry contains the name, and every entry
  contains the empty name: with the streamer \<open>Nova\<close> blocked, the matcher answers that
  the card is to be hidden, and the pass marks it and puts it out of sight.
\<close>

theorem anonymous_card_hidden:
  "extractStreamerInfo anonymousDoc (anonymousDoc ! 0) = \<lparr>name = [], title = [], tags = []\<rparr> \<and>
   (\<forall>b. matchesStreamer \<lparr>name = [], title = [], tags = []\<rparr> b) \<and>
   shouldHideCard exampleSettings anonymousDoc (anonymousDoc ! 0) \<and>
   (\<exists>d. applyBlocking exampleSettings anonymousDoc = Inr d \<and> hiddenByBlocker (d ! 0) \<and>
        hiddenInPage (d ! 0))"
proof (intro conjI allI)
  show "extractStreamerInfo anonymousDoc (anonymousDoc ! 0) = \<lparr>name = [], title = [], tags = []\<rparr>"
    by (rule anon_info)
next
  fix b
  have "trim (toLowerCase []) = []" by (simp add: trim_def toLowerCase_def)
  then show "matchesStreamer \<lparr>name = [], title = [], tags = []\<rparr> b"
    by (simp add: matchesStreamer_def Let_def)
next
  show "shouldHideCard exampleSettings anonymousDoc (anonymousDoc ! 0)"
    by (rule anon_hide)
next
  let ?d = "fold (processCardWith extractStreamerInfo exampleSettings) (streamCards anonymousDoc) anonymousDoc"
  have l: "0 < length anonymousDoc" by (simp add: anonymousDoc_def)
  have "applyBlocking exampleSettings anonymousDoc = Inr ?d"
    by (rule applyBlocking_enabled) (simp_all add: exampleSettings_def)
  moreover have "?d ! 0 = setCardVisibility (anonymousDoc ! 0) False"
    using pass_nth [OF l, of exampleSettings] anon_hide by (simp add: anon_cards)
  ultimately show "\<exists>d. applyBlocking exampleSettings anonymousDoc = Inr d \<and>
      hiddenByBlocker (d ! 0) \<and> hiddenInPage (d ! 0)"
    by simp
qed

section \<open>The scan of the catalog\<close>


section \<open>The right-click handlers\<close>




lemma resume_fields [simp]:
  "config (handleContextMenuAction_resume ok w p) = config p"
  "lastRightClickedCard (handleContextMenuAction_resume ok w p) = None"
  by (simp_all add: handleContextMenuAction_resume_def Let_def split: sum.splits)
















lemma handle_frame:
  "masterEnabled (config (handleContextMenuAction ok p)) = masterEnabled (config p) \<and>
   streamerEnabled (config (handleContextMenuAction ok p)) = streamerEnabled (config p) \<and>
   tagEnabled (config (handleContextMenuAction ok p)) = tagEnabled (config p) \<and>
   blockedTags (config (handleContextMenuAction ok p)) = blockedTags (config p) \<and>
   storage (handleContextMenuAction ok p) |` (- {''blockedStreamers''}) =
     storage p |` (- {''blockedStreamers''})"
  by (simp add: handleContextMenuAction_def handleContextMenuAction_begin_def
      handleContextMenuAction_resume_def Let_def restrict_map_def fun_eq_iff
      split: option.splits sum.splits)

lemma block_frame:
  "masterEnabled (config (blockStreamerFromContext ok q)) = masterEnabled (config q) \<and>
   streamerEnabled (config (blockStreamerFromContext ok q)) = streamerEnabled (config q) \<and>
   tagEnabled (config (blockStreamerFromContext ok q)) = tagEnabled (config q) \<and>
   blockedTags (config (blockStreamerFromContext ok q)) = blockedTags (config q) \<and>
   storage (blockStreamerFromContext ok q) |` (- {''blockedStreamers''}) =
     storage q |` (- {''blockedStreamers''})"
  by (simp add: blockStreamerFromContext_def Let_def restrict_map_def fun_eq_iff
      split: option.splits sum.splits)

text \<open>
  C10: both right-click operations leave the three switches and the blocked tags of the
  settings as they were, and write no key of the storage other than
  \<open>blockedStreamers\<close>, whether the write succeeds or fails.
\<close>

theorem toggle_frame:
  "masterEnabled (config (handleContextMenuAction ok p)) = masterEnabled (config p) \<and>
   streamerEnabled (config (handleContextMenuAction ok p)) = streamerEnabled (config p) \<and>
   tagEnabled (config (handleContextMenuAction ok p)) = tagEnabled (config p) \<and>
   blockedTags (config (handleContextMenuAction ok p)) = blockedTags (config p) \<and>
   storage (handleContextMenuAction ok p) |` (- {''blockedStreamers''}) =
     storage p |` (- {''blockedStreamers''}) \<and>
   masterEnabled (config (blockStreamerFromContext ok q)) = masterEnabled (config q) \<and>
   streamerEnabled (config (blockStreamerFromContext ok q)) = streamerEnabled (config q) \<and>
   tagEnabled (config (blockStreamerFromContext ok q)) = tagEnabled (config q) \<and>
   blockedTags (config (blockStreamerFromContext ok q)) = blockedTags (config q) \<and>
   storage (blockStreamerFromContext ok q) |` (- {''blockedStreamers''}) =
     storage q |` (- {''blockedStreamers''})"
  using handle_frame [of ok p] block_frame [of ok q] by simp

section \<open>The field extractor\<close>

lemma name_scanElement:
  "name (scanElement e info) =
     (if name info = [] \<and> resolvesName e
      then trim (collapseSpaces False (removeAlternatives nameBoilerplate (trim (textContent e))))
      else name info)"
  by (simp add: scanElement_def nameStep_def titleStep_def tagStep_def resolvesName_def Let_def)

lemma title_scanElement:
  "title (scanElement e info) =
     (if title info = [] \<and> resolvesTitle e
      then trim (collapseSpaces False (removeAlternatives titleBoilerplate (trim (textContent e))))
      else title info)"
  by (simp add: scanElement_def nameStep_def titleStep_def tagStep_def resolvesTitle_def Let_def)

lemma tags_scanElement:
  "tags (scanElement e info) =
     (if resolvesTag e then pushIfAbsent (tags info) (trim (textContent e)) else tags info)"
  by (auto simp: scanElement_def nameStep_def titleStep_def tagStep_def resolvesTag_def
      hasTagClass_def pushIfAbsent_def Let_def)

lemma name_fold:
  "name (fold scanElement es info) =
     (if name info \<noteq> [] then name info
      else (case find resolvesName es of
              Some e \<Rightarrow>
                trim (collapseSpaces False (removeAlternatives nameBoilerplate (trim (textContent e))))
            | None \<Rightarrow> []))"
proof (induction es arbitrary: info)
  case Nil
  then show ?case by simp
next
  case (Cons e es)
  have "resolvesName e \<Longrightarrow>
    trim (collapseSpaces False (removeAlternatives nameBoilerplate (trim (textContent e)))) \<noteq> []"
    by (simp add: resolvesName_def Let_def)
  then show ?case by (simp add: Cons.IH name_scanElement)
qed

lemma title_fold:
  "title (fold scanElement es info) =
     (if title info \<noteq> [] then title info
      else (case find resolvesTitle es of
              Some e \<Rightarrow>
                trim (collapseSpaces False (removeAlternatives titleBoilerplate (trim (textContent e))))
            | None \<Rightarrow> []))"
proof (induction es arbitrary: info)
  case Nil
  then show ?case by simp
next
  case (Cons e es)
  have "resolvesTitle e \<Longrightarrow>
    trim (collapseSpaces False (removeAlternatives titleBoilerplate (trim (textContent e)))) \<noteq> []"
    by (simp add: resolvesTitle_def Let_def)
  then show ?case by (simp add: Cons.IH title_scanElement)
qed

lemma tags_fold:
  "tags (fold scanElement es info) =
     foldl pushIfAbsent (tags info) (map (\<lambda>e. trim (textContent e)) (filter resolvesTag es))"
  by (induction es arbitrary: info) (simp_all add: tags_scanElement)

lemma find_None_list_ex: "find P xs = None \<longleftrightarrow> \<not> list_ex P xs"
  by (auto simp: find_None_iff list_ex_iff)

lemma foldl_pushIfAbsent_Nil: "foldl pushIfAbsent acc xs = [] \<longleftrightarrow> acc = [] \<and> xs = []"
proof -
  have "foldl pushIfAbsent acc xs = [] \<longleftrightarrow> set (foldl pushIfAbsent acc xs) = {}" by simp
  also have "\<dots> \<longleftrightarrow> acc = [] \<and> xs = []" by (simp add: set_foldl_pushIfAbsent)
  finally show ?thesis .
qed

lemma firstRun_nonempty:
  "firstRun p lo hi s = Some r \<Longrightarrow> 0 < lo \<Longrightarrow> 0 < hi \<Longrightarrow> r \<noteq> []"
proof (induction s)
  case Nil
  then show ?case by simp
next
  case (Cons c cs)
  show ?case
  proof (cases "lo \<le> length (takeWhile p (c # cs))")
    case True
    then have "r = take hi (takeWhile p (c # cs))" using Cons.prems(1) by (simp add: Let_def)
    moreover have "takeWhile p (c # cs) \<noteq> []"
      using True Cons.prems(2) by (auto simp del: takeWhile.simps)
    ultimately show ?thesis using Cons.prems(3) by (simp add: take_eq_Nil)
  next
    case False
    then have "firstRun p lo hi cs = Some r" using Cons.prems(1) by (simp add: Let_def)
    then show ?thesis using Cons by simp
  qed
qed

lemma fallbackCandidate_nonempty: "fallbackCandidate t = Some n \<Longrightarrow> n \<noteq> []"
  by (auto simp: fallbackCandidate_def Let_def split: option.splits if_splits
      dest: firstRun_nonempty)

lemma fallbackName_raising_returns: "fallbackName_raising c info = Inr (fallbackName c info)"
  by (simp add: fallbackName_raising_def fallbackName_def fallbackCandidate_def matchedText_def
      Let_def split: option.splits)

lemma tags_fold_mono:
  "x \<in> set (tags info) \<Longrightarrow> x \<in> set (tags (fold scanElement es info))"
  by (induction es arbitrary: info) (simp_all add: tags_scanElement pushIfAbsent_def)

lemma tags_fold_resolved:
  "e \<in> set es \<Longrightarrow> resolvesTag e \<Longrightarrow> trim (textContent e) \<in> set (tags (fold scanElement es info))"
proof (induction es arbitrary: info)
  case Nil
  then show ?case by simp
next
  case (Cons a es)
  show ?case
  proof (cases "a = e")
    case True
    have "trim (textContent e) \<in> set (tags (scanElement e info))"
      using Cons.prems(2) by (simp add: tags_scanElement pushIfAbsent_def)
    then show ?thesis using True by (simp add: tags_fold_mono)
  next
    case False
    then show ?thesis using Cons by simp
  qed
qed

lemma titleWords_Nil [simp]: "titleWords [] = []"
  by (simp add: titleWords_def)

lemma addTitleTags_fields [simp]:
  "name (addTitleTags info) = name info" "title (addTitleTags info) = title info"
  "tags (addTitleTags info) = foldl pushIfAbsent (tags info) (titleWords (title info))"
  by (simp_all add: addTitleTags_def)

lemma fallbackName_fields [simp]:
  "title (fallbackName c info) = title info" "tags (fallbackName c info) = tags info"
  by (simp_all add: fallbackName_def split: option.splits)

lemma name_fallbackName:
  "name (fallbackName c info) =
     (if name info = []
      then (case fallbackCandidate (textContent c) of Some n \<Rightarrow> n | None \<Rightarrow> [])
      else name info)"
  by (simp add: fallbackName_def split: option.splits)

lemma emptyInfo_fields [simp]: "name emptyInfo = []" "title emptyInfo = []" "tags emptyInfo = []"
  by (simp_all add: emptyInfo_def)

lemma unresolved_facts:
  "descendantElements unresolvedDoc (unresolvedDoc ! 0) =
     [unresolvedDoc ! 1, unresolvedDoc ! 2, unresolvedDoc ! 3, unresolvedDoc ! 4]"
  "\<not> list_ex resolvesName (descendantElements unresolvedDoc (unresolvedDoc ! 0))"
  "\<not> list_ex resolvesTitle (descendantElements unresolvedDoc (unresolvedDoc ! 0))"
  "\<not> list_ex resolvesTag (descendantElements unresolvedDoc (unresolvedDoc ! 0))"
  "firstRun isLatinLetter 3 15 (textContent (unresolvedDoc ! 0)) = Some (u ''LIVE'')"
  "fallbackCandidate (textContent (unresolvedDoc ! 0)) = None"
  by (simp_all add: extract_defs page_defs string_defs)

lemma shortTitle_facts:
  "\<not> list_ex resolvesName (descendantElements shortTitleDoc (shortTitleDoc ! 0))"
  "find resolvesTitle (descendantElements shortTitleDoc (shortTitleDoc ! 0)) =
     Some (shortTitleDoc ! 1)"
  "trim (collapseSpaces False (removeAlternatives titleBoilerplate
     (trim (textContent (shortTitleDoc ! 1))))) = u ''a''"
  "\<not> list_ex resolvesTag (descendantElements shortTitleDoc (shortTitleDoc ! 0))"
  "titleWords (u ''a'') = []"
  "fallbackCandidate (textContent (shortTitleDoc ! 0)) = None"
  by (simp_all add: extract_defs page_defs string_defs)

text \<open>
  C8: \<open>extractStreamerInfo\<close> never raises and returns a record with its three fields
  set, for every document and card: the function written with the step that can raise
  (the first element of a match that may be \<open>null\<close>) returns, and returns the record of
  \<open>extractStreamerInfo\<close>. Each field is what the first resolving source gives and is
  empty exactly when nothing resolves it. The name is the cleaned text of the first
  descendant that resolves a name, else the candidate of the fallback scan of the
  card's text, else the empty string; it is empty if and only if no descendant resolves
  a name and the fallback has no candidate. The title is the cleaned text of the first
  descendant that resolves a title, else the empty string; it is empty if and only if no
  descendant resolves a title. The tags are the texts of the descendants that resolve a
  tag, followed by the qualifying words of the title, each once; they are the empty
  sequence if and only if no descendant resolves a tag and the title has no qualifying
  word.
\<close>

theorem extract_returns_and_unresolved_empty:
  "extractStreamerInfo_raising doc c = Inr (extractStreamerInfo doc c) \<and>
   name (extractStreamerInfo doc c) =
     (case find resolvesName (descendantElements doc c) of
        Some e \<Rightarrow>
          trim (collapseSpaces False (removeAlternatives nameBoilerplate (trim (textContent e))))
      | None \<Rightarrow> (case fallbackCandidate (textContent c) of Some n \<Rightarrow> n | None \<Rightarrow> [])) \<and>
   title (extractStreamerInfo doc c) =
     (case find resolvesTitle (descendantElements doc c) of
        Some e \<Rightarrow>
          trim (collapseSpaces False (removeAlternatives titleBoilerplate (trim (textContent e))))
      | None \<Rightarrow> []) \<and>
   tags (extractStreamerInfo doc c) =
     foldl pushIfAbsent []
       (map (\<lambda>e. trim (textContent e)) (filter resolvesTag (descendantElements doc c)) @
        titleWords (title (extractStreamerInfo doc c))) \<and>
   distinct (tags (extractStreamerInfo doc c)) \<and>
   (name (extractStreamerInfo doc c) = [] \<longleftrightarrow>
      \<not> list_ex resolvesName (descendantElements doc c) \<and>
      fallbackCandidate (textContent c) = None) \<and>
   (title (extractStreamerInfo doc c) = [] \<longleftrightarrow>
      \<not> list_ex resolvesTitle (descendantElements doc c)) \<and>
   (tags (extractStreamerInfo doc c) = [] \<longleftrightarrow>
      \<not> list_ex resolvesTag (descendantElements doc c) \<and>
      titleWords (title (extractStreamerInfo doc c)) = [])"
proof -
  let ?es = "descendantElements doc c"
  let ?i = "extractStreamerInfo doc c"
  have raising: "extractStreamerInfo_raising doc c = Inr ?i"
    by (simp add: extractStreamerInfo_raising_def extractStreamerInfo_def
        fallbackName_raising_returns)
  have n: "name ?i =
     (case find resolvesName ?es of
        Some e \<Rightarrow>
          trim (collapseSpaces False (removeAlternatives nameBoilerplate (trim (textContent e))))
      | None \<Rightarrow> (case fallbackCandidate (textContent c) of Some n \<Rightarrow> n | None \<Rightarrow> []))"
  proof (cases "find resolvesName ?es")
    case None
    then show ?thesis by (simp add: extractStreamerInfo_def name_fallbackName name_fold)
  next
    case (Some e)
    then have "resolvesName e" by (auto simp: find_Some_iff)
    then have "trim (collapseSpaces False
        (removeAlternatives nameBoilerplate (trim (textContent e)))) \<noteq> []"
      by (simp add: resolvesName_def Let_def)
    then show ?thesis
      using Some by (simp add: extractStreamerInfo_def name_fallbackName name_fold)
  qed
  have t: "title ?i =
     (case find resolvesTitle ?es of
        Some e \<Rightarrow>
          trim (collapseSpaces False (removeAlternatives titleBoilerplate (trim (textContent e))))
      | None \<Rightarrow> [])"
    by (simp add: extractStreamerInfo_def title_fold)
  have g: "tags ?i =
     foldl pushIfAbsent []
       (map (\<lambda>e. trim (textContent e)) (filter resolvesTag ?es) @ titleWords (title ?i))"
    by (simp add: extractStreamerInfo_def tags_fold)
  have d: "distinct (tags ?i)"
    unfolding g by (rule distinct_foldl_pushIfAbsent) simp
  have n0: "name ?i = [] \<longleftrightarrow>
      \<not> list_ex resolvesName ?es \<and> fallbackCandidate (textContent c) = None"
  proof (cases "find resolvesName ?es")
    case None
    then have "name ?i = (case fallbackCandidate (textContent c) of Some n \<Rightarrow> n | None \<Rightarrow> [])"
      using n by simp
    moreover have "\<not> list_ex resolvesName ?es"
      using None by (simp add: find_None_list_ex)
    ultimately show ?thesis
      using fallbackCandidate_nonempty [of "textContent c"]
      by (cases "fallbackCandidate (textContent c)") auto
  next
    case (Some e)
    then have "resolvesName e" by (auto simp: find_Some_iff)
    then have "trim (collapseSpaces False
        (removeAlternatives nameBoilerplate (trim (textContent e)))) \<noteq> []"
      by (simp add: resolvesName_def Let_def)
    moreover have "list_ex resolvesName ?es"
      using Some find_None_list_ex [of resolvesName ?es] by simp
    ultimately show ?thesis using n Some by simp
  qed
  have t0: "title ?i = [] \<longleftrightarrow> \<not> list_ex resolvesTitle ?es"
  proof (cases "find resolvesTitle ?es")
    case None
    then have "title ?i = []" using t by simp
    moreover have "\<not> list_ex resolvesTitle ?es"
      using None by (simp add: find_None_list_ex)
    ultimately show ?thesis by simp
  next
    case (Some e)
    then have "resolvesTitle e" by (auto simp: find_Some_iff)
    then have "trim (collapseSpaces False
        (removeAlternatives titleBoilerplate (trim (textContent e)))) \<noteq> []"
      by (simp add: resolvesTitle_def Let_def)
    moreover have "list_ex resolvesTitle ?es"
      using Some find_None_list_ex [of resolvesTitle ?es] by simp
    ultimately show ?thesis using t Some by simp
  qed
  have g0: "tags ?i = [] \<longleftrightarrow> \<not> list_ex resolvesTag ?es \<and> titleWords (title ?i) = []"
    unfolding g by (simp add: foldl_pushIfAbsent_Nil filter_empty_conv list_ex_iff)
  show ?thesis
    using raising n t g d n0 t0 g0 by (intro conjI)
qed

theorem extract_returns_and_unresolved_empty_witness:
  "descendantElements unresolvedDoc (unresolvedDoc ! 0) =
     [unresolvedDoc ! 1, unresolvedDoc ! 2, unresolvedDoc ! 3, unresolvedDoc ! 4] \<and>
   firstRun isLatinLetter 3 15 (textContent (unresolvedDoc ! 0)) = Some (u ''LIVE'') \<and>
   extractStreamerInfo_raising unresolvedDoc (unresolvedDoc ! 0) =
     Inr (extractStreamerInfo unresolvedDoc (unresolvedDoc ! 0)) \<and>
   name (extractStreamerInfo unresolvedDoc (unresolvedDoc ! 0)) = [] \<and>
   title (extractStreamerInfo unresolvedDoc (unresolvedDoc ! 0)) = [] \<and>
   tags (extractStreamerInfo unresolvedDoc (unresolvedDoc ! 0)) = [] \<and>
   extractStreamerInfo_raising shortTitleDoc (shortTitleDoc ! 0) =
     Inr (extractStreamerInfo shortTitleDoc (shortTitleDoc ! 0)) \<and>
   name (extractStreamerInfo shortTitleDoc (shortTitleDoc ! 0)) = [] \<and>
   title (extractStreamerInfo shortTitleDoc (shortTitleDoc ! 0)) = u ''a'' \<and>
   tags (extractStreamerInfo shortTitleDoc (shortTitleDoc ! 0)) = []"
proof -
  note a = extract_returns_and_unresolved_empty [of unresolvedDoc "unresolvedDoc ! 0"]
  note b = extract_returns_and_unresolved_empty [of shortTitleDoc "shortTitleDoc ! 0"]
  have a1: "extractStreamerInfo_raising unresolvedDoc (unresolvedDoc ! 0) =
      Inr (extractStreamerInfo unresolvedDoc (unresolvedDoc ! 0))"
    using a by blast
  have an: "name (extractStreamerInfo unresolvedDoc (unresolvedDoc ! 0)) = []"
    using a unresolved_facts(2,6) by blast
  have at: "title (extractStreamerInfo unresolvedDoc (unresolvedDoc ! 0)) = []"
    using a unresolved_facts(3) by blast
  have "titleWords (title (extractStreamerInfo unresolvedDoc (unresolvedDoc ! 0))) = []"
    by (simp add: at)
  then have ag: "tags (extractStreamerInfo unresolvedDoc (unresolvedDoc ! 0)) = []"
    using a unresolved_facts(4) by blast
  have b1: "extractStreamerInfo_raising shortTitleDoc (shortTitleDoc ! 0) =
      Inr (extractStreamerInfo shortTitleDoc (shortTitleDoc ! 0))"
    using b by blast
  have bn: "name (extractStreamerInfo shortTitleDoc (shortTitleDoc ! 0)) = []"
    using b shortTitle_facts(1,6) by blast
  have "title (extractStreamerInfo shortTitleDoc (shortTitleDoc ! 0)) =
     (case find resolvesTitle (descendantElements shortTitleDoc (shortTitleDoc ! 0)) of
        Some e \<Rightarrow>
          trim (collapseSpaces False (removeAlternatives titleBoilerplate (trim (textContent e))))
      | None \<Rightarrow> [])"
    using b by blast
  then have bt: "title (extractStreamerInfo shortTitleDoc (shortTitleDoc ! 0)) = u ''a''"
    using shortTitle_facts(2,3) by simp
  have "titleWords (title (extractStreamerInfo shortTitleDoc (shortTitleDoc ! 0))) = []"
    by (simp add: bt shortTitle_facts(5))
  then have bg: "tags (extractStreamerInfo shortTitleDoc (shortTitleDoc ! 0)) = []"
    using b shortTitle_facts(4) by blast
  show ?thesis
    using unresolved_facts(1,5) a1 an at ag b1 bn bt bg by simp
qed

section \<open>The tag rule\<close>

lemma matchesTag_member:
  assumes "t \<in> set (tags info)"
  shows "matchesTag info t"
proof -
  have "js_includes (toLowerCase t) (trim (toLowerCase t))"
    by (simp add: js_includes_sublist sublist_trim)
  then show ?thesis
    using assms by (auto simp: matchesTag_def Let_def list_ex_iff)
qed

lemma shouldHideCard_tag:
  assumes "tagEnabled st" "t \<in> set (blockedTags st)" "matchesTag (extractStreamerInfo doc c) t"
  shows "shouldHideCard st doc c"
proof -
  have "blockedTags st \<noteq> []" using assms(2) by auto
  moreover have "list_ex (matchesTag (extractStreamerInfo doc c)) (blockedTags st)"
    using assms(2,3) by (auto simp: list_ex_iff)
  ultimately show ?thesis
    using assms(1) by (simp add: shouldHideCard_iff)
qed

lemma tags_extract_element:
  assumes "e \<in> set (descendantElements doc c)" "resolvesTag e"
  shows "trim (textContent e) \<in> set (tags (extractStreamerInfo doc c))"
  using tags_fold_resolved [OF assms, of emptyInfo]
  by (simp add: extractStreamerInfo_def set_foldl_pushIfAbsent)

lemma tags_extract_titleWord:
  assumes "w \<in> set (titleWords (title (extractStreamerInfo doc c)))"
  shows "w \<in> set (tags (extractStreamerInfo doc c))"
  using assms by (simp add: extractStreamerInfo_def set_foldl_pushIfAbsent)

lemma pass_hides:
  assumes "masterEnabled st" "blockedStreamers st \<noteq> [] \<or> blockedTags st \<noteq> []"
    and "i \<in> set (streamCards doc)" and "shouldHideCard st doc (doc ! i)"
  shows "\<exists>d. applyBlocking st doc = Inr d \<and> hiddenByBlocker (d ! i) \<and> hiddenInPage (d ! i)"
proof -
  have "fold (processCardWith extractStreamerInfo st) (streamCards doc) doc ! i =
        setCardVisibility (doc ! i) False"
    using pass_nth [OF streamCards_bound [OF assms(3)], of st] assms(3,4) by simp
  then show ?thesis
    using applyBlocking_enabled [OF assms(1,2), of doc] by simp
qed

lemma tagOnly_member:
  "tagOnlyDoc ! 2 \<in> set (descendantElements tagOnlyDoc (tagOnlyDoc ! 0))"
  by (simp add: descendantElements_def tagOnlyDoc_def plainElement_def)

lemma tagOnly_facts:
  "hasTagClass (classList (tagOnlyDoc ! 2))"
  "trim (textContent (tagOnlyDoc ! 2)) = u ''FPS''"
  "title (extractStreamerInfo tagOnlyDoc (tagOnlyDoc ! 0)) = []"
  "streamCards tagOnlyDoc = [0]"
  by (simp_all add: extract_defs scan_defs page_defs string_defs)

lemma titleOnly_facts:
  "u ''FPS'' \<in> set (splitRuns isSeparator False [] (title (extractStreamerInfo titleOnlyDoc (titleOnlyDoc ! 0))))"
  "\<not> list_ex resolvesTag (descendantElements titleOnlyDoc (titleOnlyDoc ! 0))"
  "\<not> isStopWord (u ''FPS'')"
  "streamCards titleOnlyDoc = [0]"
  by (simp_all add: extract_defs scan_defs page_defs string_defs)

text \<open>
  C9: with the tag switch on and \<open>t\<close> a blocked tag, each source of tags alone fires the
  tag rule. When a descendant of the card carries a class containing \<open>tag\<close>,
  \<open>category\<close> or \<open>genre\<close> and its trimmed text is \<open>t\<close>, of 1 to 19 code units, then
  \<open>t\<close> is an extracted tag, \<open>matchesTag\<close> holds for \<open>t\<close> and \<open>shouldHideCard\<close> answers
  true. When \<open>t\<close> is a token of the extracted title, of 2 to 9 code units and no stop
  word, the same holds. With the master switch on, a pass then marks the card and puts
  it out of sight.
\<close>

theorem tag_sources_sufficient:
  assumes "tagEnabled st" and "t \<in> set (blockedTags st)"
  shows
    "(e \<in> set (descendantElements doc c) \<and> hasTagClass (classList e) \<and>
      trim (textContent e) = t \<and> 0 < length t \<and> length t < 20 \<longrightarrow>
        t \<in> set (tags (extractStreamerInfo doc c)) \<and>
        matchesTag (extractStreamerInfo doc c) t \<and> shouldHideCard st doc c) \<and>
     (t \<in> set (splitRuns isSeparator False [] (title (extractStreamerInfo doc c))) \<and>
      1 < length t \<and> length t < 10 \<and> \<not> isStopWord t \<longrightarrow>
        t \<in> set (tags (extractStreamerInfo doc c)) \<and>
        matchesTag (extractStreamerInfo doc c) t \<and> shouldHideCard st doc c) \<and>
     (masterEnabled st \<and> i \<in> set (streamCards doc) \<and> shouldHideCard st doc (doc ! i) \<longrightarrow>
        (\<exists>d. applyBlocking st doc = Inr d \<and> hiddenByBlocker (d ! i) \<and> hiddenInPage (d ! i)))"
proof (intro conjI impI)
  assume a: "e \<in> set (descendantElements doc c) \<and> hasTagClass (classList e) \<and>
      trim (textContent e) = t \<and> 0 < length t \<and> length t < 20"
  then have "resolvesTag e"
    by (auto simp: resolvesTag_def Let_def)
  with a have m: "t \<in> set (tags (extractStreamerInfo doc c))"
    using tags_extract_element [of e doc c] by auto
  then show "t \<in> set (tags (extractStreamerInfo doc c))" .
  from m show "matchesTag (extractStreamerInfo doc c) t" by (rule matchesTag_member)
  then show "shouldHideCard st doc c" by (rule shouldHideCard_tag [OF assms])
next
  assume a: "t \<in> set (splitRuns isSeparator False [] (title (extractStreamerInfo doc c))) \<and>
      1 < length t \<and> length t < 10 \<and> \<not> isStopWord t"
  then have "t \<in> set (titleWords (title (extractStreamerInfo doc c)))"
    by (simp add: titleWords_def)
  then have m: "t \<in> set (tags (extractStreamerInfo doc c))" by (rule tags_extract_titleWord)
  then show "t \<in> set (tags (extractStreamerInfo doc c))" .
  from m show "matchesTag (extractStreamerInfo doc c) t" by (rule matchesTag_member)
  then show "shouldHideCard st doc c" by (rule shouldHideCard_tag [OF assms])
next
  assume a: "masterEnabled st \<and> i \<in> set (streamCards doc) \<and> shouldHideCard st doc (doc ! i)"
  have "blockedStreamers st \<noteq> [] \<or> blockedTags st \<noteq> []" using assms(2) by auto
  with a show "\<exists>d. applyBlocking st doc = Inr d \<and> hiddenByBlocker (d ! i) \<and> hiddenInPage (d ! i)"
    by (intro pass_hides) simp_all
qed

theorem tag_sources_sufficient_witness:
  "(\<exists>d. applyBlocking tagSettings tagOnlyDoc = Inr d \<and> hiddenByBlocker (d ! 0) \<and>
        hiddenInPage (d ! 0)) \<and>
   (\<exists>d. applyBlocking tagSettings titleOnlyDoc = Inr d \<and> hiddenByBlocker (d ! 0) \<and>
        hiddenInPage (d ! 0))"
proof -
  have s: "tagEnabled tagSettings" "u ''FPS'' \<in> set (blockedTags tagSettings)" "masterEnabled tagSettings"
    by (simp_all add: tagSettings_def)
  have l: "0 < length (u ''FPS'')" "length (u ''FPS'') < 20" "1 < length (u ''FPS'')" "length (u ''FPS'') < 10"
    by (simp_all add: u_def)
  have "shouldHideCard tagSettings tagOnlyDoc (tagOnlyDoc ! 0)"
    using tag_sources_sufficient [OF s(1,2), of "tagOnlyDoc ! 2" tagOnlyDoc "tagOnlyDoc ! 0"]
      tagOnly_member tagOnly_facts l by blast
  then have 1: "\<exists>d. applyBlocking tagSettings tagOnlyDoc = Inr d \<and> hiddenByBlocker (d ! 0) \<and>
      hiddenInPage (d ! 0)"
    using tag_sources_sufficient [OF s(1,2), of _ tagOnlyDoc _ 0] s(3) tagOnly_facts(4) by simp
  have "shouldHideCard tagSettings titleOnlyDoc (titleOnlyDoc ! 0)"
    using tag_sources_sufficient [OF s(1,2), of _ titleOnlyDoc "titleOnlyDoc ! 0"]
      titleOnly_facts l by blast
  then have 2: "\<exists>d. applyBlocking tagSettings titleOnlyDoc = Inr d \<and> hiddenByBlocker (d ! 0) \<and>
      hiddenInPage (d ! 0)"
    using tag_sources_sufficient [OF s(1,2), of _ titleOnlyDoc _ 0] s(3) titleOnly_facts(4) by simp
  from 1 2 show ?thesis by simp
qed

end
